theory Spec2Isabelle
  imports Complex_Main
begin

section \<open>Python values and exceptions\<close>

text \<open>
  The two modules are Python. An exception that leaves a function is a value of
  \<open>error\<close>; a function that can raise returns \<open>error + 'a\<close>, with \<open>Inl\<close> for the
  exception. Exceptions raised by the source carry the message written in the source;
  exceptions raised by the interpreter or by a library carry the interpreter's text.
  Floating-point entries of arrays and tensors are modelled as exact reals: rounding,
  infinities and NaN are outside the model.
\<close>

datatype pykey = KInt int | KFloat real | KStr string

datatype error =
    TypeError string
  | ValueError string
  | KeyError pykey
  | IndexError string
  | AttributeError string
  | RuntimeError string
  | SyntaxError string
  | ZeroDivisionError
  | NaNResult

text \<open>A list of results is a result: the first exception wins, as in a comprehension.\<close>

fun collect :: "(error + 'a) list \<Rightarrow> error + 'a list" where
  "collect [] = Inr []"
| "collect (Inl e # rs) = Inl e"
| "collect (Inr x # rs) = (case collect rs of Inl e \<Rightarrow> Inl e | Inr xs \<Rightarrow> Inr (x # xs))"

text \<open>
  A Python \<open>dict\<close> keeps its keys in insertion order and has no key twice: an
  association list. \<open>d[k]\<close> raises \<open>KeyError\<close> on a missing key.
\<close>

definition dict_get :: "(int \<times> 'v) list \<Rightarrow> int \<Rightarrow> error + 'v" where
  "dict_get d k = (case map_of d k of None \<Rightarrow> Inl (KeyError (KInt k)) | Some v \<Rightarrow> Inr v)"

text \<open>A dict comprehension stores its pairs from left to right; a later pair overwrites.\<close>

definition dict_of_pairs :: "('k \<times> 'v) list \<Rightarrow> ('k \<rightharpoonup> 'v)" where
  "dict_of_pairs ps = fold (\<lambda>(k, v) m. m(k \<mapsto> v)) ps Map.empty"

section \<open>nn.py: renumeration of class labels\<close>

text \<open>
  \<open>np.unique\<close> returns the sorted distinct entries of an array, \<open>np.arange n\<close> the
  numbers \<open>0, \<dots>, n - 1\<close>.
\<close>

definition np_unique :: "real list \<Rightarrow> real list" where
  "np_unique xs = sort (remdups xs)"

definition np_arange :: "nat \<Rightarrow> real list" where
  "np_arange n = map real [0..<n]"

text \<open>
  \<^verbatim>\<open>
  def renumerate_classes_(classes, start_from_1=True):
      diff = np.unique(classes) - np.arange(len(np.unique(classes)))
      diff_d = {cl: d for d, cl in zip(diff, np.unique(classes))}
      classes_renum = [cl - diff_d[cl] for cl in classes]
      classes_renum = np.array(classes_renum, dtype=np.float)
      if start_from_1:
          classes_renum = classes_renum + 1
      return classes_renum
  \<close>
  \<open>classes\<close> is a one-dimensional array. The result is a new array; the argument is
  only read. \<open>np.float\<close> is the alias of \<open>float\<close> of the numpy releases the module
  was written for.
\<close>

definition renumerate_classes_' :: "real list \<Rightarrow> bool \<Rightarrow> error + real list" where
  "renumerate_classes_' classes start_from_1 =
    (let diff = map2 (-) (np_unique classes) (np_arange (length (np_unique classes)));
         diff_d = dict_of_pairs (map (\<lambda>(d, cl). (cl, d)) (zip diff (np_unique classes)))
     in case collect (map (\<lambda>cl. case diff_d cl of
                                   None \<Rightarrow> Inl (KeyError (KFloat cl))
                                 | Some d \<Rightarrow> Inr (cl - d)) classes) of
          Inl e \<Rightarrow> Inl e
        | Inr classes_renum \<Rightarrow>
            Inr (if start_from_1 then map (\<lambda>x. x + 1) classes_renum else classes_renum))"

text \<open>
  The specification's wording: the rank of a label is its position in the sorted list of
  the distinct labels present, counted from 0, that is, the number of distinct labels
  below it.
\<close>

definition label_rank :: "real list \<Rightarrow> real \<Rightarrow> nat" where
  "label_rank classes cl = card {x \<in> set classes. x < cl}"


section \<open>nn.py: arrays in a store\<close>

text \<open>
  \<open>combine_classes_\<close> writes into the array it is given, and \<open>combine_classes\<close> and
  \<open>renumerate_classes\<close> write into the arrays of a deep copy. To say which arrays change,
  array objects live in a store, a list indexed by address; a new object is appended.
  An array is one-dimensional (\<open>Flat\<close>) or two-dimensional, held as the list of its rows
  (\<open>Matrix\<close>: a list without rows stands for an array with no rows and at least one
  column). Every address a program holds is below the length of the store.
\<close>

type_synonym addr = nat

datatype ndarray = Flat "real list" | Matrix "real list list"

type_synonym heap = "ndarray list"

text \<open>
  A label array is an array object as a whole, or the view \<open>a[:, -1]\<close> of the last
  column of a two-dimensional array: a view shares the memory of its base.
\<close>

datatype labels = Whole addr | LastColumn addr

definition last_column :: "heap \<Rightarrow> addr \<Rightarrow> error + labels" where
  "last_column h a =
    (case h ! a of
       Flat xs \<Rightarrow> Inl (IndexError ''too many indices for array'')
     | Matrix rows \<Rightarrow>
         if [] \<in> set rows
         then Inl (IndexError ''index -1 is out of bounds for axis 1 with size 0'')
         else Inr (LastColumn a))"

fun read_labels :: "heap \<Rightarrow> labels \<Rightarrow> real list" where
  "read_labels h (Whole a) = (case h ! a of Flat xs \<Rightarrow> xs | Matrix rows \<Rightarrow> concat rows)"
| "read_labels h (LastColumn a) = (case h ! a of Flat xs \<Rightarrow> [] | Matrix rows \<Rightarrow> map last rows)"

text \<open>The masked assignment \<open>classes_all[classes_all == c] = v\<close>, in place.\<close>

fun assign_where_eq :: "heap \<Rightarrow> labels \<Rightarrow> real \<Rightarrow> real \<Rightarrow> heap" where
  "assign_where_eq h (Whole a) c v =
     h[a := (case h ! a of
               Flat xs \<Rightarrow> Flat (map (\<lambda>x. if x = c then v else x) xs)
             | Matrix rows \<Rightarrow> Matrix (map (map (\<lambda>x. if x = c then v else x)) rows))]"
| "assign_where_eq h (LastColumn a) c v =
     h[a := (case h ! a of
               Flat xs \<Rightarrow> Flat xs
             | Matrix rows \<Rightarrow>
                 Matrix (map (\<lambda>row. butlast row @ [if last row = c then v else last row]) rows))]"

text \<open>
  The assignment \<open>a[:, -1] = values\<close> of a one-dimensional array of values to the last
  column: one value per row, or a single value for all rows.
\<close>

definition set_last_column :: "heap \<Rightarrow> addr \<Rightarrow> real list \<Rightarrow> error + heap" where
  "set_last_column h a vs =
    (case h ! a of
       Flat xs \<Rightarrow> Inl (IndexError ''too many indices for array'')
     | Matrix rows \<Rightarrow>
         if [] \<in> set rows
         then Inl (IndexError ''index -1 is out of bounds for axis 1 with size 0'')
         else if length vs = length rows
         then Inr (h[a := Matrix (map2 (\<lambda>row v. butlast row @ [v]) rows vs)])
         else if length vs = 1
         then Inr (h[a := Matrix (map (\<lambda>row. butlast row @ [hd vs]) rows)])
         else Inl (ValueError ''could not broadcast input array''))"

subsection \<open>combine_classes_\<close>

text \<open>
  \<^verbatim>\<open>
  def combine_classes_(classes_all, classes_to_combine):
      for comb in classes_to_combine:
          cls_min = min(comb)
          for c in comb:
              classes_all[classes_all == c] = cls_min
      return classes_all
  \<close>
  The function returns the array it was given, after writing into it. The store is
  returned with the result also when \<open>min\<close> raises on an empty group: what was written
  before stays written.
\<close>

definition py_min :: "real list \<Rightarrow> error + real" where
  "py_min xs = (case xs of
                  [] \<Rightarrow> Inl (ValueError ''min() arg is an empty sequence'')
                | x # ys \<Rightarrow> Inr (fold min ys x))"

fun combine_group :: "heap \<Rightarrow> labels \<Rightarrow> real \<Rightarrow> real list \<Rightarrow> heap" where
  "combine_group h classes_all cls_min [] = h"
| "combine_group h classes_all cls_min (c # comb) =
     combine_group (assign_where_eq h classes_all c cls_min) classes_all cls_min comb"

fun combine_classes_' :: "heap \<Rightarrow> labels \<Rightarrow> real list list \<Rightarrow> (error + labels) \<times> heap" where
  "combine_classes_' h classes_all [] = (Inr classes_all, h)"
| "combine_classes_' h classes_all (comb # classes_to_combine) =
     (case py_min comb of
        Inl e \<Rightarrow> (Inl e, h)
      | Inr cls_min \<Rightarrow>
          combine_classes_' (combine_group h classes_all cls_min comb)
            classes_all classes_to_combine)"

text \<open>
  The specification's wording: group by group, in input order, every label that belongs
  to the group is replaced by the minimum of the group.
\<close>

definition replace_group :: "real list \<Rightarrow> real list \<Rightarrow> real list" where
  "replace_group comb xs = map (\<lambda>x. if x \<in> set comb then Min (set comb) else x) xs"

definition combined :: "real list \<Rightarrow> real list list \<Rightarrow> real list" where
  "combined xs classes_to_combine = fold replace_group classes_to_combine xs"

subsection \<open>Coordinate/class dictionaries\<close>

text \<open>
  A coordinate/class dictionary maps an image index to a two-dimensional array object
  whose last column holds the class labels. The functions below never store into a
  dictionary, only into the arrays it refers to, so a dictionary is the list of its
  items, each an index and the address of an array.

  \<open>copy.deepcopy\<close> builds a new dictionary with a new array for every array of the
  original; its memo keeps an array that is referred to twice shared in the copy.
\<close>

type_synonym coord_class_dict = "(int \<times> addr) list"

fun deepcopy_items ::
  "(addr \<times> addr) list \<Rightarrow> heap \<Rightarrow> coord_class_dict \<Rightarrow> coord_class_dict \<times> heap" where
  "deepcopy_items memo h [] = ([], h)"
| "deepcopy_items memo h ((k, a) # d) =
     (case map_of memo a of
        Some a' \<Rightarrow>
          (case deepcopy_items memo h d of (d', h') \<Rightarrow> ((k, a') # d', h'))
      | None \<Rightarrow>
          (case deepcopy_items ((a, length h) # memo) (h @ [h ! a]) d of
             (d', h') \<Rightarrow> ((k, length h) # d', h')))"

definition deepcopy :: "heap \<Rightarrow> coord_class_dict \<Rightarrow> coord_class_dict \<times> heap" where
  "deepcopy h d = deepcopy_items [] h d"

text \<open>
  \<^verbatim>\<open>
  def renumerate_classes(coord_class_dict, start_from_1=True):
      coord_class_dict_ = copy.deepcopy(coord_class_dict)
      for i in range(len(coord_class_dict)):
          coord_class_dict_[i][:, -1] = renumerate_classes_(
              coord_class_dict_[i][:, -1], start_from_1=True)
      return coord_class_dict_
  \<close>
  The loop runs over the numbers \<open>0, \<dots>, len - 1\<close> and looks each one up as a key. The
  right-hand side is evaluated first; the second lookup of the same key, for the target
  of the assignment, cannot fail after the first.
\<close>

fun renumerate_loop :: "heap \<Rightarrow> coord_class_dict \<Rightarrow> nat list \<Rightarrow> (error + unit) \<times> heap" where
  "renumerate_loop h d [] = (Inr (), h)"
| "renumerate_loop h d (i # is) =
     (case dict_get d (int i) of
        Inl e \<Rightarrow> (Inl e, h)
      | Inr a \<Rightarrow>
     (case last_column h a of
        Inl e \<Rightarrow> (Inl e, h)
      | Inr col \<Rightarrow>
     (case renumerate_classes_' (read_labels h col) True of
        Inl e \<Rightarrow> (Inl e, h)
      | Inr new \<Rightarrow>
     (case set_last_column h a new of
        Inl e \<Rightarrow> (Inl e, h)
      | Inr h' \<Rightarrow> renumerate_loop h' d is))))"

definition renumerate_classes ::
  "heap \<Rightarrow> coord_class_dict \<Rightarrow> bool \<Rightarrow> (error + coord_class_dict) \<times> heap" where
  "renumerate_classes h coord_class_dict start_from_1 =
     (case deepcopy h coord_class_dict of
        (coord_class_dict_, h1) \<Rightarrow>
          (case renumerate_loop h1 coord_class_dict_ [0..<length coord_class_dict] of
             (Inl e, h2) \<Rightarrow> (Inl e, h2)
           | (Inr u, h2) \<Rightarrow> (Inr coord_class_dict_, h2)))"

text \<open>
  \<^verbatim>\<open>
  def combine_classes(coord_class_dict, classes_to_combine, renumerate=True):
      coord_class_dict_ = copy.deepcopy(coord_class_dict)
      for i in range(len(coord_class_dict_)):
          coord_class_dict_[i][:, -1] = combine_classes_(
              coord_class_dict_[i][:, -1], classes_to_combine)
      if renumerate:
          coord_class_dict_ = renumerate_classes(coord_class_dict_)
      return coord_class_dict_
  \<close>
  \<open>combine_classes_\<close> receives the view of the last column of the copy, writes through
  it and returns it; the assignment then copies the view onto itself.
\<close>

fun combine_loop ::
  "heap \<Rightarrow> coord_class_dict \<Rightarrow> real list list \<Rightarrow> nat list \<Rightarrow> (error + unit) \<times> heap" where
  "combine_loop h d classes_to_combine [] = (Inr (), h)"
| "combine_loop h d classes_to_combine (i # is) =
     (case dict_get d (int i) of
        Inl e \<Rightarrow> (Inl e, h)
      | Inr a \<Rightarrow>
     (case last_column h a of
        Inl e \<Rightarrow> (Inl e, h)
      | Inr col \<Rightarrow>
     (case combine_classes_' h col classes_to_combine of
        (Inl e, h1) \<Rightarrow> (Inl e, h1)
      | (Inr res, h1) \<Rightarrow>
     (case set_last_column h1 a (read_labels h1 res) of
        Inl e \<Rightarrow> (Inl e, h1)
      | Inr h2 \<Rightarrow> combine_loop h2 d classes_to_combine is))))"

definition combine_classes ::
  "heap \<Rightarrow> coord_class_dict \<Rightarrow> real list list \<Rightarrow> bool \<Rightarrow> (error + coord_class_dict) \<times> heap"
  where
  "combine_classes h coord_class_dict classes_to_combine renumerate =
     (case deepcopy h coord_class_dict of
        (coord_class_dict_, h1) \<Rightarrow>
          (case combine_loop h1 coord_class_dict_ classes_to_combine
                  [0..<length coord_class_dict_] of
             (Inl e, h2) \<Rightarrow> (Inl e, h2)
           | (Inr u, h2) \<Rightarrow>
               if renumerate then renumerate_classes h2 coord_class_dict_ True
               else (Inr coord_class_dict_, h2)))"

text \<open>
  A dictionary is well formed in a store when its keys are distinct and each of its
  entries is a two-dimensional array with at least one column.
\<close>

definition has_columns :: "ndarray \<Rightarrow> bool" where
  "has_columns x = (case x of Flat xs \<Rightarrow> False | Matrix rows \<Rightarrow> [] \<notin> set rows)"

definition wf_dict :: "heap \<Rightarrow> coord_class_dict \<Rightarrow> bool" where
  "wf_dict h d \<longleftrightarrow>
     distinct (map fst d) \<and> list_all (\<lambda>(k, a). a < length h \<and> has_columns (h ! a)) d"

text \<open>The keys are exactly the numbers \<open>0, \<dots>, len - 1\<close>.\<close>

definition contiguous_keys :: "coord_class_dict \<Rightarrow> bool" where
  "contiguous_keys d \<longleftrightarrow> set (map fst d) = set (map int [0..<length d])"

text \<open>
  Two arrays agree outside the last column: the same kind of array, the same number of
  rows, and the same entries in every column but the last.
\<close>

definition same_coordinates :: "ndarray \<Rightarrow> ndarray \<Rightarrow> bool" where
  "same_coordinates x y =
     (case x of
        Flat xs \<Rightarrow> y = x
      | Matrix rows \<Rightarrow>
          (case y of
             Flat ys \<Rightarrow> False
           | Matrix rows' \<Rightarrow>
               length rows' = length rows \<and> map butlast rows' = map butlast rows \<and>
               ([] \<in> set rows' \<longrightarrow> [] \<in> set rows)))"

text \<open>The labels are the numbers \<open>1, \<dots>, n\<close> for some \<open>n\<close>: no gaps, starting at 1.\<close>

definition contiguous_from_1 :: "real list \<Rightarrow> bool" where
  "contiguous_from_1 ls \<longleftrightarrow> set ls = set (map real [1..<Suc (card (set ls))])"

subsection \<open>Relations between stores\<close>

text \<open>
  \<open>frame A h h'\<close>: the store \<open>h'\<close> has the objects of \<open>h\<close>, the arrays outside the set
  \<open>A\<close> of addresses are unchanged, and every array agrees with its old value outside
  the last column.
\<close>

definition frame :: "addr set \<Rightarrow> heap \<Rightarrow> heap \<Rightarrow> bool" where
  "frame A h h' \<longleftrightarrow>
     length h' = length h \<and>
     (\<forall>a < length h. a \<notin> A \<longrightarrow> h' ! a = h ! a) \<and>
     (\<forall>a < length h. same_coordinates (h ! a) (h' ! a))"

text \<open>
  \<open>copy_of h d h' d'\<close>: the dictionary \<open>d'\<close> in the store \<open>h'\<close> has the keys of \<open>d\<close> in the
  same order, its arrays are objects that did not exist in \<open>h\<close>, and each agrees with
  the array of \<open>d\<close> under the same key outside the last column.
\<close>

definition copy_of :: "heap \<Rightarrow> coord_class_dict \<Rightarrow> heap \<Rightarrow> coord_class_dict \<Rightarrow> bool" where
  "copy_of h d h' d' \<longleftrightarrow>
     list_all2 (\<lambda>(k, a) (k', a'). k' = k \<and> length h \<le> a' \<and> a' < length h' \<and>
                  same_coordinates (h ! a) (h' ! a')) d d'"

text \<open>An array with its last column renumbered from 1.\<close>

definition renumbered :: "ndarray \<Rightarrow> ndarray" where
  "renumbered x =
     (case x of
        Flat xs \<Rightarrow> Flat xs
      | Matrix rows \<Rightarrow>
          (case renumerate_classes_' (map last rows) True of
             Inl e \<Rightarrow> Matrix rows
           | Inr new \<Rightarrow> Matrix (map2 (\<lambda>row v. butlast row @ [v]) rows new)))"

text \<open>
  \<open>renumbered_copy h d h' d'\<close>: \<open>d'\<close> has the keys of \<open>d\<close> in the same order, and its array
  under a key is the array of \<open>d\<close> under that key with the last column renumbered from 1.
\<close>

definition renumbered_copy ::
  "heap \<Rightarrow> coord_class_dict \<Rightarrow> heap \<Rightarrow> coord_class_dict \<Rightarrow> bool" where
  "renumbered_copy h d h' d' \<longleftrightarrow>
     list_all2 (\<lambda>(k, a) (k', a'). k' = k \<and> a' < length h' \<and>
                  h' ! a' = renumbered (h ! a)) d d'"

text \<open>The class labels of an entry: the last column of its array.\<close>

definition class_labels :: "heap \<Rightarrow> addr \<Rightarrow> real list" where
  "class_labels h a = read_labels h (LastColumn a)"

text \<open>Every entry of the dictionary is an object of the store with at least one column.\<close>

definition valid_entries :: "heap \<Rightarrow> coord_class_dict \<Rightarrow> bool" where
  "valid_entries h d = list_all (\<lambda>(k, a). a < length h \<and> has_columns (h ! a)) d"

text \<open>One round of the loop of \<open>renumerate_classes\<close>, when nothing raises.\<close>

definition renumber_entry :: "coord_class_dict \<Rightarrow> nat \<Rightarrow> heap \<Rightarrow> heap" where
  "renumber_entry d i h =
     h[the (map_of d (int i)) := renumbered (h ! the (map_of d (int i)))]"

section \<open>nn.py: averaging the weights of an ensemble\<close>

text \<open>
  A tensor is its element type and the list of its entries. The element type is a
  floating-point type or an integer type: state dicts hold both (the step counters of
  normalisation layers are integer tensors). A state dict is an object: it maps
  parameter names, in order, to tensors, and \<open>copy_\<close> overwrites the entries of a tensor
  it holds in place. State dicts live in a store of their own, a list indexed by address,
  so that one state dict can stand under several keys of an ensemble. Each parameter name
  of a state dict has a tensor of its own (no tensor is shared between two names).
\<close>

datatype dtype = FloatType | IntType

datatype tensor = Tensor (dtype_of: dtype) (entries_of: "real list")

type_synonym state_dict = "(string \<times> tensor) list"

type_synonym wstore = "state_dict list"

type_synonym ensemble = "(int \<times> addr) list"

text \<open>
  \<open>sum\<close> starts from the integer 0 and adds the tensors from left to right. Adding the
  integer to a tensor adds it to every entry and keeps the element type; two tensors are
  added entry by entry, a tensor with a single entry being added to every entry of the
  other, and the sum is an integer tensor only when both are; other sizes do not fit and
  raise \<open>RuntimeError\<close>.
\<close>

datatype pynum = Scalar real | TensorValue tensor

definition promote :: "dtype \<Rightarrow> dtype \<Rightarrow> dtype" where
  "promote a b = (if a = FloatType \<or> b = FloatType then FloatType else IntType)"

definition tensor_add :: "tensor \<Rightarrow> tensor \<Rightarrow> error + tensor" where
  "tensor_add x y =
     (let d = promote (dtype_of x) (dtype_of y); xs = entries_of x; ys = entries_of y in
      if length xs = length ys then Inr (Tensor d (map2 (+) xs ys))
      else if length xs = 1 then Inr (Tensor d (map (\<lambda>v. hd xs + v) ys))
      else if length ys = 1 then Inr (Tensor d (map (\<lambda>v. v + hd ys) xs))
      else Inl (RuntimeError ''The size of tensor a must match the size of tensor b''))"

definition py_add :: "pynum \<Rightarrow> tensor \<Rightarrow> error + pynum" where
  "py_add acc t =
     (case acc of
        Scalar c \<Rightarrow> Inr (TensorValue (Tensor (dtype_of t) (map (\<lambda>v. c + v) (entries_of t))))
      | TensorValue x \<Rightarrow>
          (case tensor_add x t of Inl e \<Rightarrow> Inl e | Inr s \<Rightarrow> Inr (TensorValue s)))"

fun sum_from :: "pynum \<Rightarrow> tensor list \<Rightarrow> error + pynum" where
  "sum_from acc [] = Inr acc"
| "sum_from acc (t # ts) =
     (case py_add acc t of Inl e \<Rightarrow> Inl e | Inr acc' \<Rightarrow> sum_from acc' ts)"

definition py_sum :: "tensor list \<Rightarrow> error + pynum" where
  "py_sum ts = sum_from (Scalar 0) ts"

text \<open>
  Division by \<open>float(n)\<close>. Of a Python number it raises when \<open>n\<close> is 0. Of a tensor it
  is the true division of every entry, and the quotient is a floating-point tensor also
  when the tensor divided is an integer tensor; dividing a tensor by 0.0 gives
  infinities or NaN, for which the model has the outcome \<open>NaNResult\<close>.
\<close>

definition py_div :: "pynum \<Rightarrow> nat \<Rightarrow> error + pynum" where
  "py_div s n =
     (case s of
        Scalar c \<Rightarrow> if n = 0 then Inl ZeroDivisionError else Inr (Scalar (c / real n))
      | TensorValue x \<Rightarrow>
          if n = 0 then Inl NaNResult
          else Inr (TensorValue (Tensor FloatType (map (\<lambda>v. v / real n) (entries_of x)))))"

text \<open>
  \<open>dst.copy_(src)\<close> overwrites the entries of \<open>dst\<close> with those of \<open>src\<close>, a tensor with
  a single entry filling all of \<open>dst\<close>. The tensor written keeps its element type: the
  entries copied are cast to it, and the cast of a floating-point number to an integer
  type drops the fraction (it rounds toward zero). The result is the new content of
  \<open>dst\<close>.
\<close>

definition trunc :: "real \<Rightarrow> real" where
  "trunc x = (if 0 \<le> x then of_int \<lfloor>x\<rfloor> else of_int \<lceil>x\<rceil>)"

definition cast_to :: "dtype \<Rightarrow> real \<Rightarrow> real" where
  "cast_to d x = (case d of FloatType \<Rightarrow> x | IntType \<Rightarrow> trunc x)"

definition copy_into :: "tensor \<Rightarrow> pynum \<Rightarrow> error + tensor" where
  "copy_into dst src =
     (case src of
        Scalar c \<Rightarrow> Inl (TypeError ''copy_(): argument must be a Tensor'')
      | TensorValue x \<Rightarrow>
          if length (entries_of x) = length (entries_of dst)
          then Inr (Tensor (dtype_of dst) (map (cast_to (dtype_of dst)) (entries_of x)))
          else if length (entries_of x) = 1
          then Inr (Tensor (dtype_of dst)
                      (map (\<lambda>v. cast_to (dtype_of dst) (hd (entries_of x))) (entries_of dst)))
          else Inl (RuntimeError ''The size of tensor a must match the size of tensor b''))"

text \<open>\<open>sd[name]\<close> and the in-place write to the tensor under \<open>name\<close>.\<close>

definition sd_get :: "state_dict \<Rightarrow> string \<Rightarrow> error + tensor" where
  "sd_get sd name = (case map_of sd name of None \<Rightarrow> Inl (KeyError (KStr name)) | Some p \<Rightarrow> Inr p)"

definition sd_write :: "state_dict \<Rightarrow> string \<Rightarrow> tensor \<Rightarrow> state_dict" where
  "sd_write sd name new = map (\<lambda>(n, p). if n = name then (n, new) else (n, p)) sd"

text \<open>
  \<^verbatim>\<open>
  def average_weights(ensemble):
      ensemble_state_dict = ensemble[0]
      names = [name for name in ensemble_state_dict.keys()]
      for name in names:
          w_aver = []
          for model in ensemble.values():
              for n, p in model.items():
                  if n == name:
                      w_aver.append(p)
          ensemble_state_dict[name].copy_(sum(w_aver) / float(len(w_aver)))
      return ensemble_state_dict
  \<close>
  The result is the address of the state dict returned, with the store after the call;
  the store is returned also when the call raises.
\<close>

definition collect_weights :: "wstore \<Rightarrow> ensemble \<Rightarrow> string \<Rightarrow> tensor list" where
  "collect_weights h ens name =
     concat (map (\<lambda>(k, a). map snd (filter (\<lambda>(n, p). n = name) (h ! a))) ens)"

fun average_loop :: "wstore \<Rightarrow> ensemble \<Rightarrow> addr \<Rightarrow> string list \<Rightarrow> (error + unit) \<times> wstore"
  where
  "average_loop h ens a0 [] = (Inr (), h)"
| "average_loop h ens a0 (name # names) =
     (case py_sum (collect_weights h ens name) of
        Inl e \<Rightarrow> (Inl e, h)
      | Inr s \<Rightarrow>
     (case py_div s (length (collect_weights h ens name)) of
        Inl e \<Rightarrow> (Inl e, h)
      | Inr avg \<Rightarrow>
     (case sd_get (h ! a0) name of
        Inl e \<Rightarrow> (Inl e, h)
      | Inr dst \<Rightarrow>
     (case copy_into dst avg of
        Inl e \<Rightarrow> (Inl e, h)
      | Inr new \<Rightarrow> average_loop (h[a0 := sd_write (h ! a0) name new]) ens a0 names))))"

definition average_weights :: "wstore \<Rightarrow> ensemble \<Rightarrow> (error + addr) \<times> wstore" where
  "average_weights h ens =
     (case dict_get ens 0 of
        Inl e \<Rightarrow> (Inl e, h)
      | Inr ensemble_state_dict \<Rightarrow>
          (case average_loop h ens ensemble_state_dict (map fst (h ! ensemble_state_dict)) of
             (Inl e, h') \<Rightarrow> (Inl e, h')
           | (Inr u, h') \<Rightarrow> (Inr ensemble_state_dict, h')))"

text \<open>
  The specification's wording. Two snapshots are structurally identical when they have
  the same parameter names with tensors of the same sizes. The elementwise mean of
  tensors of one size has, at each position, the sum of their entries there divided by
  their number. In the averaged snapshot every tensor has kept its element type and
  holds the elementwise mean of the tensors of its name over the entries of the
  ensemble, cast to that type: the mean itself in a floating-point tensor, the mean
  without its fraction in an integer tensor.
\<close>

definition same_structure :: "state_dict \<Rightarrow> state_dict \<Rightarrow> bool" where
  "same_structure s t \<longleftrightarrow>
     map fst s = map fst t \<and>
     map (\<lambda>(n, p). length (entries_of p)) s = map (\<lambda>(n, p). length (entries_of p)) t"

definition elementwise_mean :: "real list list \<Rightarrow> real list" where
  "elementwise_mean ts =
     map (\<lambda>j. (\<Sum>t\<leftarrow>ts. t ! j) / real (length ts)) [0..<length (hd ts)]"

definition mean_of_name :: "wstore \<Rightarrow> ensemble \<Rightarrow> string \<Rightarrow> real list" where
  "mean_of_name h ens n =
     elementwise_mean (map (\<lambda>(k, a). entries_of (the (map_of (h ! a) n))) ens)"

definition averaged :: "wstore \<Rightarrow> ensemble \<Rightarrow> state_dict \<Rightarrow> state_dict" where
  "averaged h ens sd =
     map (\<lambda>(n, p). (n, Tensor (dtype_of p) (map (cast_to (dtype_of p)) (mean_of_name h ens n)))) sd"

section \<open>epredictor.py: arrays with a shape\<close>

text \<open>
  A numpy array or torch tensor of the predictor is its shape and its entries in row-major
  order; the length of a well-formed array's entries is the product of its shape.
  Dimensions and class counts are natural numbers.
\<close>

record nparray =
  shape :: "nat list"
  entries :: "real list"

definition np_zeros :: "nat list \<Rightarrow> nparray" where
  "np_zeros s = \<lparr>shape = s, entries = replicate (prod_list s) 0\<rparr>"

text \<open>\<open>len(a)\<close> is the first dimension; an array without dimensions has no length.\<close>

definition np_len :: "nparray \<Rightarrow> error + nat" where
  "np_len a = (case shape a of [] \<Rightarrow> Inl (TypeError ''len() of unsized object'') | n # s \<Rightarrow> Inr n)"

text \<open>
  Broadcasting a value to the shape of the place it is assigned to. Shapes are aligned at
  their last dimension; a dimension of the value must be the dimension of the place or 1,
  and a value with more dimensions than the place may only have leading dimensions 1,
  which are dropped.
\<close>

definition chunks :: "nat \<Rightarrow> nat \<Rightarrow> 'a list \<Rightarrow> 'a list list" where
  "chunks n k xs = map (\<lambda>i. take k (drop (i * k) xs)) [0..<n]"

fun expand :: "nat list \<Rightarrow> nat list \<Rightarrow> real list \<Rightarrow> real list option" where
  "expand [] [] xs = Some xs"
| "expand (a # s) (b # t) xs =
     (if a = b then map_option concat (those (map (expand s t) (chunks a (prod_list s) xs)))
      else if a = 1 then map_option (\<lambda>ys. concat (replicate b ys)) (expand s t xs)
      else None)"
| "expand s t xs = None"

fun strip_ones :: "nat \<Rightarrow> nat list \<Rightarrow> nat list" where
  "strip_ones n [] = []"
| "strip_ones n (a # s) = (if n < length (a # s) \<and> a = 1 then strip_ones n s else a # s)"

definition broadcast_to :: "nat list \<Rightarrow> nparray \<Rightarrow> error + real list" where
  "broadcast_to dst v =
     (if shape v = dst then Inr (entries v)
      else
        let s = strip_ones (length dst) (shape v) in
        if length dst < length s then Inl (ValueError ''could not broadcast input array'')
        else (case expand (replicate (length dst - length s) 1 @ s) dst (entries v) of
                None \<Rightarrow> Inl (ValueError ''could not broadcast input array'')
              | Some ys \<Rightarrow> Inr ys))"

text \<open>
  The slice \<open>a[i:j]\<close> along the first dimension, with Python's clipping of the bounds, and
  the assignment \<open>a[i:j] = v\<close>. An array without dimensions cannot be sliced.
\<close>

definition np_slice :: "nparray \<Rightarrow> nat \<Rightarrow> nat \<Rightarrow> error + nparray" where
  "np_slice a i j =
     (case shape a of
        [] \<Rightarrow> Inl (IndexError ''too many indices for array'')
      | n # s \<Rightarrow>
          let lo = min i n; hi = max lo (min j n); k = prod_list s in
          Inr \<lparr>shape = (hi - lo) # s, entries = take ((hi - lo) * k) (drop (lo * k) (entries a))\<rparr>)"

definition np_slice_from :: "nparray \<Rightarrow> nat \<Rightarrow> error + nparray" where
  "np_slice_from a i = (case shape a of [] \<Rightarrow> np_slice a i 0 | n # s \<Rightarrow> np_slice a i n)"

definition np_set_slice :: "nparray \<Rightarrow> nat \<Rightarrow> nat \<Rightarrow> nparray \<Rightarrow> error + nparray" where
  "np_set_slice a i j v =
     (case shape a of
        [] \<Rightarrow> Inl (IndexError ''too many indices for array'')
      | n # s \<Rightarrow>
          let lo = min i n; hi = max lo (min j n); k = prod_list s in
          (case broadcast_to ((hi - lo) # s) v of
             Inl e \<Rightarrow> Inl e
           | Inr vals \<Rightarrow>
               Inr (a\<lparr>entries := take (lo * k) (entries a) @ vals @ drop (hi * k) (entries a)\<rparr>)))"

definition np_set_slice_from :: "nparray \<Rightarrow> nat \<Rightarrow> nparray \<Rightarrow> error + nparray" where
  "np_set_slice_from a i v =
     (case shape a of [] \<Rightarrow> np_set_slice a i 0 v | n # s \<Rightarrow> np_set_slice a i n v)"

text \<open>
  An array of shape \<open>(N, *out_shape)\<close> is held as the list of its \<open>N\<close> entries along the
  first axis, each with \<open>k\<close> numbers. \<open>np.mean\<close> and \<open>np.var\<close> along axis 0 give, at each
  of the \<open>k\<close> positions, the mean of the \<open>N\<close> numbers there and the mean of the squares of
  their distances to that mean: \<open>np.var\<close> is called without \<open>ddof\<close>, so it divides by
  \<open>N\<close>.
\<close>

definition np_mean_axis0 :: "real list list \<Rightarrow> nat \<Rightarrow> real list" where
  "np_mean_axis0 slots k = map (\<lambda>j. (\<Sum>x\<leftarrow>slots. x ! j) / real (length slots)) [0..<k]"

definition np_var_axis0 :: "real list list \<Rightarrow> nat \<Rightarrow> real list" where
  "np_var_axis0 slots k =
     map (\<lambda>j. (\<Sum>x\<leftarrow>slots. (x ! j - np_mean_axis0 slots k ! j)\<^sup>2) / real (length slots)) [0..<k]"

section \<open>epredictor.py: the ensemble predictor\<close>

text \<open>
  The attributes of an \<open>EnsemblePredictor\<close>. The model object is the skeleton with the
  weights that were loaded last (\<open>None\<close>: the weights it came with); \<open>'w\<close> is the type of
  weight snapshots. \<open>everbose\<close> and \<open>verbose\<close> are attributes the constructor sets only
  for a true \<open>verbose\<close> option: \<open>None\<close> is an attribute that was never set.
\<close>

record 'w predictor =
  device :: string
  model :: "'w option"
  ensemble :: "(int \<times> 'w) list"
  data_type :: string
  output_type :: string
  nb_classes :: "nat option"
  in_dim :: "nat list option"
  out_dim :: "nat list option"
  downsample_factor :: "nat option"
  output_shape :: "nat list option"
  everbose :: "bool option"
  verbose :: "bool option"

text \<open>
  \<open>BasePredictor\<close> and torch are not part of the two modules. What the predictor calls of
  them is a parameter: the outcome of \<open>super().__super__()\<close>, whether an accelerator is
  available, the outcome of loading a snapshot into the skeleton and of moving the model
  to a device (\<open>None\<close>: no exception), and the forward pass of the model with the weights
  it has, brought back as a numpy array.
\<close>

record 'w base_predictor =
  base_super :: "error option"
  cuda_is_available :: bool
  load_state_dict :: "'w \<Rightarrow> error option"
  model2device :: "string \<Rightarrow> error option"
  forward_' :: "'w option \<Rightarrow> nparray \<Rightarrow> error + nparray"

text \<open>The keyword options the constructor reads; \<open>None\<close> is an option that was not given.\<close>

record kwargs =
  kw_use_gpu :: "bool option"
  kw_device :: "string option"
  kw_output_shape :: "nat list option"
  kw_verbose :: "int option"

text \<open>
  The built-in functions \<open>all\<close> and \<open>len\<close> take one argument. Called with another
  number of arguments they raise \<open>TypeError\<close>.
\<close>

fun builtin_all :: "nat list option list \<Rightarrow> error + bool" where
  "builtin_all [Some xs] = Inr (list_all (\<lambda>x. x \<noteq> 0) xs)"
| "builtin_all [None] = Inl (TypeError ''NoneType object is not iterable'')"
| "builtin_all args = Inl (TypeError ''all() takes exactly one argument'')"

definition builtin_len :: "nparray \<Rightarrow> nat list \<Rightarrow> error + nat" where
  "builtin_len a more_args =
     (if more_args = [] then np_len a else Inl (TypeError ''len() takes exactly one argument''))"

definition msg_output_types :: string where
  "msg_output_types = ''Supported output types are 'image' and 'spectra'' @ [CHR 0x27]"

definition msg_dimensions :: string where
  "msg_dimensions = ''Specify input (in_dim) & output (out_dim) dimensions''"

text \<open>
  \<^verbatim>\<open>
  def __init__(self, skeleton, ensemble, data_type="image", output_type="image",
               nb_classes=None, in_dim=None, out_dim=None, **kwargs):
      super(EnsemblePredictor, self).__super__()
      if output_type not in ["image", "spectra"]:
          raise TypeError("Supported output types are 'image' and 'spectra'")
      inout = [data_type, output_type]
      inout_d = not all(in_dim, out_dim)
      if inout in (["image", "spectra"], ["spectra", "image"]) and inout_d:
          raise TypeError(
              "Specify input (in_dim) & output (out_dim) dimensions")
      self.device = "cpu"
      if kwargs.get("use_gpu", True) and torch.cuda.is_available():
          if kwargs.get("device") is None:
              self.device = "cuda"
          else:
              self.device = kwargs.get("device")
      self.model = skeleton
      self.ensemble = ensemble
      self.data_type = data_type
      self.output_type = output_type
      self.nb_classes = nb_classes
      self.in_dim, self.out_dim = in_dim, out_dim
      self.downsample_factor = None
      self.output_shape = kwargs.get("output_shape")
      verbose = kwargs.get("verbose", 1)
      if verbose:
          self.everbose = True
          self.verbose = True if verbose > 1 else False
  \<close>
  \<open>all\<close> is called with the two arguments \<open>in_dim\<close> and \<open>out_dim\<close>.
\<close>

definition EnsemblePredictor_init ::
  "'w base_predictor \<Rightarrow> 'w option \<Rightarrow> (int \<times> 'w) list \<Rightarrow> string \<Rightarrow> string \<Rightarrow> nat option \<Rightarrow>
   nat list option \<Rightarrow> nat list option \<Rightarrow> kwargs \<Rightarrow> error + 'w predictor" where
  "EnsemblePredictor_init B skeleton ens dt ot nbc ind outd kw =
     (case base_super B of
        Some e \<Rightarrow> Inl e
      | None \<Rightarrow>
          if ot \<notin> set [''image'', ''spectra''] then Inl (TypeError msg_output_types)
          else
            (case builtin_all [ind, outd] of
               Inl e \<Rightarrow> Inl e
             | Inr a \<Rightarrow>
                 let inout = [dt, ot]; inout_d = \<not> a in
                 if inout \<in> set [[''image'', ''spectra''], [''spectra'', ''image'']] \<and> inout_d
                 then Inl (TypeError msg_dimensions)
                 else
                   let dev = (if (case kw_use_gpu kw of None \<Rightarrow> True | Some g \<Rightarrow> g)
                                 \<and> cuda_is_available B
                              then (case kw_device kw of None \<Rightarrow> ''cuda'' | Some d \<Rightarrow> d)
                              else ''cpu'');
                       v = (case kw_verbose kw of None \<Rightarrow> 1 | Some n \<Rightarrow> n)
                   in Inr \<lparr>device = dev, model = skeleton, ensemble = ens, data_type = dt,
                           output_type = ot, nb_classes = nbc, in_dim = ind, out_dim = outd,
                           downsample_factor = None, output_shape = kw_output_shape kw,
                           everbose = (if v \<noteq> 0 then Some True else None),
                           verbose = (if v \<noteq> 0 then Some (1 < v) else None)\<rparr>))"

text \<open>
  \<^verbatim>\<open>
  def _set_output_shape(self, data):
      if self.data_type == self.output_type == "image":
          if self.nb_classes:  # semantic segmentation
              out_shape = (*data.shape, self.nb_classes)
          else:  # image cleaning
              out_shape = (*data.shape)
      elif self.data_type == "spectra" and self.output_type == "image":
          if self.nb_classes:
              out_shape = (len(data), *self.out_dim, self.nb_classes)
          else:
              out_shape = (len(data), *self.out_dim)
      elif self.data_type == "image" and self.output_type == "spectra":
          out_shape = (len(data), *self.out_dim)
      elif self.data_type == self.output_type == "spectra":
          out_shape = (*data.shape)
      else:
          raise TypeError("Data not understood")
      self.output_shape = out_shape
  \<close>
  \<open>(*data.shape)\<close> is not an expression of Python: a starred expression stands in a
  tuple, list or set display or in a call, and parentheses without a comma are no tuple
  display (the branch above it has \<open>(*data.shape, self.nb_classes)\<close>). The compiler
  rejects the two assignments, and with them the module. The model keeps every other
  statement as written and gives these two branches the compiler's error as their
  outcome. A class count is true when it is set and not 0; unpacking an \<open>out_dim\<close> that
  was not given raises \<open>TypeError\<close>.
\<close>

definition truthy :: "nat option \<Rightarrow> bool" where
  "truthy c = (case c of None \<Rightarrow> False | Some n \<Rightarrow> n \<noteq> 0)"

definition unpack :: "nat list option \<Rightarrow> error + nat list" where
  "unpack t = (case t of
                 None \<Rightarrow> Inl (TypeError ''Value after * must be an iterable, not NoneType'')
               | Some xs \<Rightarrow> Inr xs)"

definition starred_without_comma :: "error + nat list" where
  "starred_without_comma = Inl (SyntaxError ''cannot use starred expression here'')"

definition set_output_shape :: "'w predictor \<Rightarrow> nparray \<Rightarrow> error + 'w predictor" where
  "set_output_shape self data =
     (case
        (if data_type self = output_type self \<and> output_type self = ''image'' then
           (if truthy (nb_classes self) then Inr (shape data @ [the (nb_classes self)])
            else starred_without_comma)
         else if data_type self = ''spectra'' \<and> output_type self = ''image'' then
           (if truthy (nb_classes self) then
              (case np_len data of Inl e \<Rightarrow> Inl e | Inr n \<Rightarrow>
               (case unpack (out_dim self) of Inl e \<Rightarrow> Inl e | Inr od \<Rightarrow>
                  Inr (n # od @ [the (nb_classes self)])))
            else
              (case np_len data of Inl e \<Rightarrow> Inl e | Inr n \<Rightarrow>
               (case unpack (out_dim self) of Inl e \<Rightarrow> Inl e | Inr od \<Rightarrow> Inr (n # od))))
         else if data_type self = ''image'' \<and> output_type self = ''spectra'' then
           (case np_len data of Inl e \<Rightarrow> Inl e | Inr n \<Rightarrow>
            (case unpack (out_dim self) of Inl e \<Rightarrow> Inl e | Inr od \<Rightarrow> Inr (n # od)))
         else if data_type self = output_type self \<and> output_type self = ''spectra'' then
           starred_without_comma
         else Inl (TypeError ''Data not understood''))
      of
        Inl e \<Rightarrow> Inl e
      | Inr out_shape \<Rightarrow> Inr (self\<lparr>output_shape := Some out_shape\<rparr>))"

text \<open>
  \<^verbatim>\<open>
  def ensemble_forward_(self, data, out_shape):
      eprediction = np.zeros(
          (len(self.ensemble), *out_shape))
      for i, m in enumerate(self.ensemble.values()):
          self.model.load_state_dict(m)
          self._model2device()
          eprediction[i] = self.forward_(data).cpu().numpy()
      return np.mean(eprediction, axis=0), np.var(eprediction, axis=0)
  \<close>
  \<open>out_shape\<close> is a tuple when the caller passes one; the second call in
  \<open>ensemble_batch_predict\<close> can pass an integer, which cannot be unpacked. With no
  member at all numpy takes the mean of nothing: it warns and returns NaN, for which the
  model has the outcome \<open>NaNResult\<close>.
\<close>

datatype shape_arg = IntArg nat | TupleArg "nat list"

fun forward_members ::
  "'w base_predictor \<Rightarrow> 'w predictor \<Rightarrow> nparray \<Rightarrow> nat list \<Rightarrow> 'w list \<Rightarrow> nat \<Rightarrow> real list list \<Rightarrow>
   error + (real list list \<times> 'w predictor)" where
  "forward_members B self data out_shape [] i eprediction = Inr (eprediction, self)"
| "forward_members B self data out_shape (m # ms) i eprediction =
     (case load_state_dict B m of
        Some e \<Rightarrow> Inl e
      | None \<Rightarrow>
     (case model2device B (device self) of
        Some e \<Rightarrow> Inl e
      | None \<Rightarrow>
     (case forward_' B (Some m) data of
        Inl e \<Rightarrow> Inl e
      | Inr out \<Rightarrow>
     (case broadcast_to out_shape out of
        Inl e \<Rightarrow> Inl e
      | Inr vals \<Rightarrow>
          forward_members B (self\<lparr>model := Some m\<rparr>) data out_shape ms (Suc i)
            (eprediction[i := vals])))))"

definition ensemble_forward_' ::
  "'w base_predictor \<Rightarrow> 'w predictor \<Rightarrow> nparray \<Rightarrow> shape_arg \<Rightarrow>
   error + ((nparray \<times> nparray) \<times> 'w predictor)" where
  "ensemble_forward_' B self data out_shape_arg =
     (case out_shape_arg of
        IntArg n \<Rightarrow> Inl (TypeError ''Value after * must be an iterable, not int'')
      | TupleArg out_shape \<Rightarrow>
          let k = prod_list out_shape;
              eprediction = replicate (length (ensemble self)) (replicate k 0)
          in (case forward_members B self data out_shape (map snd (ensemble self)) 0
                     eprediction of
                Inl e \<Rightarrow> Inl e
              | Inr (eprediction', self') \<Rightarrow>
                  if eprediction' = [] then Inl NaNResult
                  else Inr ((\<lparr>shape = out_shape, entries = np_mean_axis0 eprediction' k\<rparr>,
                             \<lparr>shape = out_shape, entries = np_var_axis0 eprediction' k\<rparr>),
                            self')))"

text \<open>
  \<^verbatim>\<open>
  def ensemble_batch_predict(self, data, num_batches=10):
      batch_size = len(data) // num_batches
      if batch_size < 1:
          num_batches = batch_size = 1
      prediction_mean = np.zeros(shape=self.output_shape)
      prediction_var = np.zeros(shape=self.output_shape)
      for i in range(num_batches):
          if self.everbose:
              print("\rBatch {}/{}".format(i+1, num_batches), end="")
          data_i = data[i*batch_size:(i+1)*batch_size]
          pred_mean, pred_var = self.ensemble_forward_(
              data_i, (batch_size, *self.output_shape[1:]))
          prediction_mean[i*batch_size:(i+1)*batch_size] = pred_mean
          prediction_var[i*batch_size:(i+1)*batch_size] = pred_var
      data_i = data[(i+1)*batch_size:]
      if len(data_i) > 0:
          pred_mean, pred_var = self.ensemble_forward_(
              data_i, (len(data_i, *self.output_shape[1:])))
          prediction_mean[(i+1)*batch_size:] = pred_mean
          prediction_var[(i+1)*batch_size:] = pred_var
      return prediction_mean, prediction_var
  \<close>
  Printing has no effect on the result. In the call for the remainder, the closing
  parenthesis of \<open>len\<close> stands after the unpacked dimensions: \<open>len\<close> receives them as
  further arguments, and when there are none, its result in parentheses is an integer,
  not a tuple.
\<close>

fun batch_loop ::
  "'w base_predictor \<Rightarrow> 'w predictor \<Rightarrow> nparray \<Rightarrow> nat \<Rightarrow> nat list \<Rightarrow> nat list \<Rightarrow>
   nparray \<Rightarrow> nparray \<Rightarrow> error + ((nparray \<times> nparray) \<times> 'w predictor)" where
  "batch_loop B self data batch_size oshape [] prediction_mean prediction_var =
     Inr ((prediction_mean, prediction_var), self)"
| "batch_loop B self data batch_size oshape (i # is) prediction_mean prediction_var =
     (case everbose self of
        None \<Rightarrow> Inl (AttributeError ''EnsemblePredictor object has no attribute everbose'')
      | Some ev \<Rightarrow>
     (case np_slice data (i * batch_size) ((i + 1) * batch_size) of
        Inl e \<Rightarrow> Inl e
      | Inr data_i \<Rightarrow>
     (case ensemble_forward_' B self data_i (TupleArg (batch_size # tl oshape)) of
        Inl e \<Rightarrow> Inl e
      | Inr ((pred_mean, pred_var), self') \<Rightarrow>
     (case np_set_slice prediction_mean (i * batch_size) ((i + 1) * batch_size) pred_mean of
        Inl e \<Rightarrow> Inl e
      | Inr prediction_mean' \<Rightarrow>
     (case np_set_slice prediction_var (i * batch_size) ((i + 1) * batch_size) pred_var of
        Inl e \<Rightarrow> Inl e
      | Inr prediction_var' \<Rightarrow>
          batch_loop B self' data batch_size oshape is prediction_mean' prediction_var')))))"

definition remainder_shape :: "nparray \<Rightarrow> nat list \<Rightarrow> error + shape_arg" where
  "remainder_shape data_i oshape =
     (case builtin_len data_i (tl oshape) of Inl e \<Rightarrow> Inl e | Inr n \<Rightarrow> Inr (IntArg n))"

text \<open>The batch size and the number of batches after the first three lines.\<close>

definition batch_size_of :: "nat \<Rightarrow> int \<Rightarrow> nat" where
  "batch_size_of n num_batches =
     (if int n div num_batches < 1 then 1 else nat (int n div num_batches))"

definition num_batches_of :: "nat \<Rightarrow> int \<Rightarrow> nat" where
  "num_batches_of n num_batches = (if int n div num_batches < 1 then 1 else nat num_batches)"

text \<open>The statements after the loop, from \<open>data_i = data[(i+1)*batch_size:]\<close> on.\<close>

definition predict_remainder ::
  "'w base_predictor \<Rightarrow> 'w predictor \<Rightarrow> nparray \<Rightarrow> nat list \<Rightarrow> nat \<Rightarrow> nparray \<Rightarrow> nparray \<Rightarrow>
   error + ((nparray \<times> nparray) \<times> 'w predictor)" where
  "predict_remainder B self data oshape start prediction_mean prediction_var =
     (case np_slice_from data start of
        Inl e \<Rightarrow> Inl e
      | Inr data_i \<Rightarrow>
     (case np_len data_i of
        Inl e \<Rightarrow> Inl e
      | Inr r \<Rightarrow>
          if 0 < r then
            (case remainder_shape data_i oshape of
               Inl e \<Rightarrow> Inl e
             | Inr arg \<Rightarrow>
            (case ensemble_forward_' B self data_i arg of
               Inl e \<Rightarrow> Inl e
             | Inr ((pred_mean, pred_var), self') \<Rightarrow>
            (case np_set_slice_from prediction_mean start pred_mean of
               Inl e \<Rightarrow> Inl e
             | Inr prediction_mean' \<Rightarrow>
            (case np_set_slice_from prediction_var start pred_var of
               Inl e \<Rightarrow> Inl e
             | Inr prediction_var' \<Rightarrow>
                 Inr ((prediction_mean', prediction_var'), self')))))
          else Inr ((prediction_mean, prediction_var), self)))"

definition ensemble_batch_predict ::
  "'w base_predictor \<Rightarrow> 'w predictor \<Rightarrow> nparray \<Rightarrow> int \<Rightarrow>
   error + ((nparray \<times> nparray) \<times> 'w predictor)" where
  "ensemble_batch_predict B self data num_batches =
     (case np_len data of
        Inl e \<Rightarrow> Inl e
      | Inr n \<Rightarrow>
          if num_batches = 0 then Inl ZeroDivisionError
          else
            (case output_shape self of
               None \<Rightarrow>
                 Inl (TypeError ''expected sequence object with len >= 0 or a single integer'')
             | Some oshape \<Rightarrow>
                 (case batch_loop B self data (batch_size_of n num_batches) oshape
                         [0..<num_batches_of n num_batches] (np_zeros oshape) (np_zeros oshape) of
                    Inl e \<Rightarrow> Inl e
                  | Inr ((prediction_mean, prediction_var), self1) \<Rightarrow>
                      predict_remainder B self1 data oshape
                        (num_batches_of n num_batches * batch_size_of n num_batches)
                        prediction_mean prediction_var)))"

subsection \<open>A small ensemble to run the predictor on\<close>

text \<open>
  A model whose weights are one number and whose forward pass multiplies every sample by
  it, giving one output per sample; a predictor with the two snapshots 1 and 3; and an
  input of ten samples.
\<close>

definition scaling_model :: "real base_predictor" where
  "scaling_model =
     \<lparr>base_super = None, cuda_is_available = False,
      load_state_dict = (\<lambda>w. None), model2device = (\<lambda>d. None),
      forward_' = (\<lambda>w d. Inr \<lparr>shape = shape d @ [1],
                                 entries = map (\<lambda>x. (case w of None \<Rightarrow> 0 | Some c \<Rightarrow> c) * x)
                                             (entries d)\<rparr>)\<rparr>"

definition two_members :: "real predictor" where
  "two_members =
     \<lparr>device = ''cpu'', model = None, ensemble = [(0, 1), (1, 3)],
      data_type = ''spectra'', output_type = ''spectra'', nb_classes = None, in_dim = None,
      out_dim = None, downsample_factor = None, output_shape = Some [10, 1],
      everbose = Some True, verbose = Some False\<rparr>"

definition ten_samples :: nparray where
  "ten_samples = \<lparr>shape = [10], entries = [1, 2, 3, 4, 5, 6, 7, 8, 9, 10]\<rparr>"

section \<open>Renumeration maps every label to its rank\<close>

lemma collect_map_Inr: "collect (map (\<lambda>x. Inr (f x)) xs) = Inr (map f xs)"
  by (induction xs) simp_all

lemma fold_upd_distinct:
  "distinct (map fst ps) \<Longrightarrow> fold (\<lambda>(k, v) m. m(k \<mapsto> v)) ps m = m ++ map_of ps"
proof (induction ps arbitrary: m)
  case Nil
  then show ?case by simp
next
  case (Cons p ps)
  obtain k v where p: "p = (k, v)" by (cases p)
  from Cons.prems p have k: "map_of ps k = None" and d: "distinct (map fst ps)"
    by (auto simp: map_of_eq_None_iff)
  have "fold (\<lambda>(k, v) m. m(k \<mapsto> v)) (p # ps) m
          = fold (\<lambda>(k, v) m. m(k \<mapsto> v)) ps (m(k \<mapsto> v))"
    using p by simp
  also have "\<dots> = m(k \<mapsto> v) ++ map_of ps"
    by (rule Cons.IH [OF d])
  also have "\<dots> = m ++ map_of (p # ps)"
    using k p by (auto simp: map_add_def fun_eq_iff split: option.splits)
  finally show ?case .
qed

lemma dict_of_pairs_distinct:
  "distinct (map fst ps) \<Longrightarrow> dict_of_pairs ps = map_of ps"
  by (simp add: dict_of_pairs_def fold_upd_distinct)

lemma swap_zip: "map (\<lambda>(d, cl). (cl, d)) (zip ds cls) = zip cls ds"
  by (induction ds cls rule: list_induct2') simp_all

lemma sorted_distinct_less_card:
  assumes "sorted u" "distinct u" "k < length u"
  shows "card {x \<in> set u. x < u ! k} = k"
proof -
  from assms have ss: "sorted_wrt (<) u"
    by (simp add: strict_sorted_iff)
  have "{x \<in> set u. x < u ! k} = set (take k u)"
  proof (intro set_eqI iffI)
    fix x assume "x \<in> {x \<in> set u. x < u ! k}"
    then obtain j where j: "j < length u" "x = u ! j" "u ! j < u ! k"
      by (auto simp: in_set_conv_nth)
    have "j < k"
    proof (rule ccontr)
      assume "\<not> j < k"
      then have "k \<le> j" by simp
      with assms(1) j(1) have "u ! k \<le> u ! j" by (simp add: sorted_nth_mono)
      with j(3) show False by simp
    qed
    with j assms(3) show "x \<in> set (take k u)"
      by (auto simp: in_set_conv_nth)
  next
    fix x assume "x \<in> set (take k u)"
    then obtain i where i: "i < k" "x = u ! i"
      using assms(3) by (auto simp: in_set_conv_nth)
    with ss assms(3) have "u ! i < u ! k"
      by (simp add: sorted_wrt_iff_nth_less)
    with i assms(3) show "x \<in> {x \<in> set u. x < u ! k}" by simp
  qed
  moreover have "card (set (take k u)) = k"
    using assms by (simp add: distinct_card)
  ultimately show ?thesis by simp
qed

lemma diff_d_lookup:
  assumes "cl \<in> set classes"
  shows "dict_of_pairs (map (\<lambda>(d, cl). (cl, d))
           (zip (map2 (-) (np_unique classes) (np_arange (length (np_unique classes))))
                (np_unique classes))) cl
         = Some (cl - real (label_rank classes cl))"
proof -
  let ?u = "np_unique classes"
  let ?diff = "map2 (-) ?u (np_arange (length ?u))"
  have u: "sorted ?u" "distinct ?u" "set ?u = set classes"
    by (simp_all add: np_unique_def)
  have len: "length ?diff = length ?u" by (simp add: np_arange_def)
  from assms u(3) have "cl \<in> set ?u" by simp
  then obtain k where k: "k < length ?u" "?u ! k = cl"
    by (metis in_set_conv_nth)
  have rank: "label_rank classes cl = k"
    using sorted_distinct_less_card [OF u(1) u(2) k(1)] k(2) u(3)
    by (simp add: label_rank_def)
  have "dict_of_pairs (map (\<lambda>(d, cl). (cl, d)) (zip ?diff ?u)) = map_of (zip ?u ?diff)"
    using u(2) len by (simp add: swap_zip dict_of_pairs_distinct)
  moreover have "map_of (zip ?u ?diff) (?u ! k) = Some (?diff ! k)"
    using u(2) len k(1) by (intro map_of_zip_nth) simp_all
  moreover have "?diff ! k = ?u ! k - real k"
    using k(1) by (simp add: np_arange_def)
  ultimately show ?thesis using k(2) rank by simp
qed

lemma renumerate_general:
  "renumerate_classes_' classes start_from_1 =
     Inr (map (\<lambda>cl. real (label_rank classes cl) + (if start_from_1 then 1 else 0)) classes)"
proof -
  let ?u = "np_unique classes"
  let ?d = "dict_of_pairs (map (\<lambda>(d, cl). (cl, d))
           (zip (map2 (-) ?u (np_arange (length ?u))) ?u))"
  have eq: "map (\<lambda>cl. case ?d cl of None \<Rightarrow> Inl (KeyError (KFloat cl)) | Some d \<Rightarrow> Inr (cl - d)) classes
        = map (\<lambda>cl. Inr (real (label_rank classes cl))) classes"
    by (rule map_cong) (simp_all add: diff_d_lookup)
  show ?thesis
    unfolding renumerate_classes_'_def Let_def eq collect_map_Inr
    by (simp add: o_def)
qed

text \<open>
  C6: \<open>renumerate_classes_\<close> maps every label of its input to the 0-based rank of the
  label among the sorted distinct labels present, and adds 1 to every label when
  \<open>start_from_1\<close> is true. In particular \<open>[2, 2, 5, 5, 9]\<close> becomes \<open>[1, 1, 2, 2, 3]\<close>
  with the flag set and \<open>[0, 0, 1, 1, 2]\<close> without it.
\<close>

theorem renumerate_classes_'_rank:
  "renumerate_classes_' classes start_from_1 =
     Inr (map (\<lambda>cl. real (label_rank classes cl) + (if start_from_1 then 1 else 0)) classes)
   \<and> renumerate_classes_' [2, 2, 5, 5, 9] True = Inr [1, 1, 2, 2, 3]
   \<and> renumerate_classes_' [2, 2, 5, 5, 9] False = Inr [0, 0, 1, 1, 2]"
proof -
  have "renumerate_classes_' [2, 2, 5, 5, 9] True = Inr [1, 1, 2, 2, 3]"
    by (simp add: renumerate_classes_'_def np_unique_def np_arange_def dict_of_pairs_def)
  moreover have "renumerate_classes_' [2, 2, 5, 5, 9] False = Inr [0, 0, 1, 1, 2]"
    by (simp add: renumerate_classes_'_def np_unique_def np_arange_def dict_of_pairs_def)
  ultimately show ?thesis using renumerate_general by blast
qed

section \<open>Combining classes in a flat array\<close>

lemma list_update_self: "h ! a = x \<Longrightarrow> h[a := x] = h"
  by (metis list_update_id)

lemma py_min_Min: "comb \<noteq> [] \<Longrightarrow> py_min comb = Inr (Min (set comb))"
proof (cases comb)
  case Nil
  assume "comb \<noteq> []"
  with Nil show ?thesis by simp
next
  case (Cons x ys)
  have "fold min ys x = Min (set (x # ys))"
    by (rule Min.set_eq_fold [symmetric])
  with Cons show ?thesis by (simp add: py_min_def)
qed

lemma combine_group_Flat:
  "a < length h \<Longrightarrow> h ! a = Flat xs \<Longrightarrow>
   combine_group h (Whole a) m comb = h[a := Flat (map (\<lambda>x. if x \<in> set comb then m else x) xs)]"
proof (induction comb arbitrary: h xs)
  case Nil
  then show ?case by (simp add: list_update_self)
next
  case (Cons c comb)
  let ?ys = "map (\<lambda>x. if x = c then m else x) xs"
  let ?h = "h[a := Flat ?ys]"
  have step: "assign_where_eq h (Whole a) c m = ?h"
    using Cons.prems by simp
  have "combine_group ?h (Whole a) m comb
          = ?h[a := Flat (map (\<lambda>x. if x \<in> set comb then m else x) ?ys)]"
    using Cons.prems(1) by (intro Cons.IH) simp_all
  also have "map (\<lambda>x. if x \<in> set comb then m else x) ?ys
          = map (\<lambda>x. if x \<in> set (c # comb) then m else x) xs"
    by simp
  finally show ?case using step by simp
qed

lemma combine_classes_'_Flat:
  "a < length h \<Longrightarrow> h ! a = Flat xs \<Longrightarrow> [] \<notin> set classes_to_combine \<Longrightarrow>
   combine_classes_' h (Whole a) classes_to_combine
     = (Inr (Whole a), h[a := Flat (combined xs classes_to_combine)])"
proof (induction classes_to_combine arbitrary: h xs)
  case Nil
  then show ?case by (simp add: combined_def list_update_self)
next
  case (Cons comb rest)
  from Cons.prems have ne: "comb \<noteq> []" and rest: "[] \<notin> set rest" by auto
  let ?h = "h[a := Flat (replace_group comb xs)]"
  have grp: "combine_group h (Whole a) (Min (set comb)) comb = ?h"
    using Cons.prems(1,2) by (simp add: combine_group_Flat replace_group_def)
  have "combine_classes_' ?h (Whole a) rest
          = (Inr (Whole a), ?h[a := Flat (combined (replace_group comb xs) rest)])"
    using Cons.prems(1) rest by (intro Cons.IH) simp_all
  then show ?case
    using ne grp by (simp add: py_min_Min combined_def)
qed

text \<open>
  C8: \<open>combine_classes_\<close>, given a flat array of class labels and a list of groups,
  replaces, group by group in input order, every occurrence of a label of the group by
  the minimum of the group. The array given is the array returned, written in place.
  Applied to \<open>[1, 2, 3, 4]\<close> with the single group \<open>[2, 3]\<close> it returns \<open>[1, 2, 2, 4]\<close>.
\<close>

theorem combine_classes_'_group_minimum:
  "(a < length h \<and> h ! a = Flat xs \<and> [] \<notin> set classes_to_combine \<longrightarrow>
      combine_classes_' h (Whole a) classes_to_combine
        = (Inr (Whole a), h[a := Flat (combined xs classes_to_combine)]))
   \<and> combine_classes_' [Flat [1, 2, 3, 4]] (Whole 0) [[2, 3]]
        = (Inr (Whole 0), [Flat [1, 2, 2, 4]])"
proof -
  have "combine_classes_' [Flat [1, 2, 3, 4]] (Whole 0) [[2, 3]]
          = (Inr (Whole 0), [Flat [1, 2, 2, 4]])"
    by (simp add: py_min_def)
  then show ?thesis using combine_classes_'_Flat by blast
qed

theorem combine_classes_'_group_minimum_witness:
  "(0::nat) < length [Flat [3, 1, 2, 5, 3]] \<and> [Flat [3, 1, 2, 5, 3]] ! 0 = Flat [3, 1, 2, 5, 3]
   \<and> [] \<notin> set [[5, 3], [2, 1 :: real]]
   \<and> combine_classes_' [Flat [3, 1, 2, 5, 3]] (Whole 0) [[5, 3], [2, 1]]
        = (Inr (Whole 0), [Flat [3, 1, 1, 3, 3]])"
  using combine_classes_'_group_minimum [of 0 "[Flat [3, 1, 2, 5, 3]]" "[3, 1, 2, 5, 3]" "[[5, 3], [2, 1]]"]
  by (simp add: combined_def replace_group_def)

section \<open>What the loops over a dictionary write\<close>

subsection \<open>Agreement outside the last column\<close>

lemma same_coordinates_refl: "same_coordinates x x"
  by (cases x) (simp_all add: same_coordinates_def)

lemma same_coordinates_trans:
  "same_coordinates x y \<Longrightarrow> same_coordinates y z \<Longrightarrow> same_coordinates x z"
  by (cases x; cases y; cases z) (auto simp: same_coordinates_def)

lemma same_coordinates_has_columns:
  "same_coordinates x y \<Longrightarrow> has_columns x \<Longrightarrow> has_columns y"
  by (cases x; cases y) (auto simp: same_coordinates_def has_columns_def)

lemma butlast_map2_snoc:
  "length vs = length rows \<Longrightarrow>
   map butlast (map2 (\<lambda>row v. butlast row @ [v]) rows vs) = map butlast rows"
  by (induction rows vs rule: list_induct2') simp_all

lemma no_empty_map2_snoc: "[] \<notin> set (map2 (\<lambda>row v. butlast row @ [v]) rows vs)"
  by (auto simp: set_zip)

lemma last_map2_snoc:
  "length vs = length rows \<Longrightarrow> map last (map2 (\<lambda>row v. butlast row @ [v]) rows vs) = vs"
  by (induction rows vs rule: list_induct2') simp_all

lemma same_coordinates_map2:
  "length vs = length rows \<Longrightarrow>
   same_coordinates (Matrix rows) (Matrix (map2 (\<lambda>row v. butlast row @ [v]) rows vs))"
proof -
  assume l: "length vs = length rows"
  let ?rows' = "map2 (\<lambda>row v. butlast row @ [v]) rows vs"
  have "length ?rows' = length rows" using l by simp
  moreover have "map butlast ?rows' = map butlast rows" by (rule butlast_map2_snoc [OF l])
  moreover have "[] \<notin> set ?rows'" by (rule no_empty_map2_snoc)
  ultimately show ?thesis
    unfolding same_coordinates_def ndarray.case by blast
qed

lemma same_coordinates_map_snoc:
  "same_coordinates (Matrix rows) (Matrix (map (\<lambda>row. butlast row @ [f row]) rows))"
  by (auto simp: same_coordinates_def)

subsection \<open>Frames\<close>

lemma frame_refl: "frame A h h"
  by (simp add: frame_def same_coordinates_refl)

lemma frame_trans: "frame A h h1 \<Longrightarrow> frame A h1 h2 \<Longrightarrow> frame A h h2"
proof -
  assume 1: "frame A h h1" and 2: "frame A h1 h2"
  have len: "length h1 = length h" "length h2 = length h"
    using 1 2 by (simp_all add: frame_def)
  have "h2 ! a = h ! a" if "a < length h" "a \<notin> A" for a
    using 1 2 that by (simp add: frame_def)
  moreover have "same_coordinates (h ! a) (h2 ! a)" if "a < length h" for a
  proof -
    have "same_coordinates (h ! a) (h1 ! a)" using 1 that by (simp add: frame_def)
    moreover have "same_coordinates (h1 ! a) (h2 ! a)" using 2 that len by (simp add: frame_def)
    ultimately show ?thesis by (rule same_coordinates_trans)
  qed
  ultimately show ?thesis using len by (simp add: frame_def)
qed

lemma frame_update:
  "a \<in> A \<Longrightarrow> same_coordinates (h ! a) y \<Longrightarrow> frame A h (h[a := y])"
proof (cases "a < length h")
  case True
  assume "a \<in> A" "same_coordinates (h ! a) y"
  with True show ?thesis
    by (auto simp: frame_def nth_list_update same_coordinates_refl)
next
  case False
  then have "h[a := y] = h" by (simp add: list_update_beyond)
  then show ?thesis by (simp add: frame_refl)
qed

lemma frame_mono: "frame A h h' \<Longrightarrow> A \<subseteq> B \<Longrightarrow> frame B h h'"
  by (auto simp: frame_def)

lemma set_last_column_Inr:
  assumes "set_last_column h a vs = Inr h'"
  shows "\<exists>y. h' = h[a := y] \<and> same_coordinates (h ! a) y"
proof (cases "h ! a")
  case (Flat xs)
  with assms show ?thesis by (simp add: set_last_column_def)
next
  case (Matrix rows)
  with assms show ?thesis
    using same_coordinates_map2 [of vs rows] same_coordinates_map_snoc [of rows "\<lambda>row. hd vs"]
    by (auto simp: set_last_column_def split: if_splits)
qed

lemma assign_where_eq_LastColumn:
  "\<exists>y. assign_where_eq h (LastColumn a) c v = h[a := y] \<and> same_coordinates (h ! a) y"
proof (cases "h ! a")
  case (Flat xs)
  then show ?thesis by (auto simp: same_coordinates_refl)
next
  case (Matrix rows)
  then show ?thesis
    using same_coordinates_map_snoc [of rows "\<lambda>row. if last row = c then v else last row"]
    by auto
qed

lemma combine_group_frame: "frame {a} h (combine_group h (LastColumn a) m comb)"
proof (induction comb arbitrary: h)
  case Nil
  then show ?case by (simp add: frame_refl)
next
  case (Cons c comb)
  obtain y where y: "assign_where_eq h (LastColumn a) c m = h[a := y]"
      "same_coordinates (h ! a) y"
    using assign_where_eq_LastColumn by blast
  have "frame {a} h (h[a := y])" using y(2) by (simp add: frame_update)
  moreover have "frame {a} (h[a := y]) (combine_group (h[a := y]) (LastColumn a) m comb)"
    by (rule Cons.IH)
  ultimately show ?case using y(1) by (simp add: frame_trans)
qed

lemma combine_classes_'_frame:
  "frame {a} h (snd (combine_classes_' h (LastColumn a) g))"
proof (induction g arbitrary: h)
  case Nil
  then show ?case by (simp add: frame_refl)
next
  case (Cons comb g)
  show ?case
  proof (cases "py_min comb")
    case (Inl e)
    then show ?thesis by (simp add: frame_refl)
  next
    case (Inr m)
    have "frame {a} h (combine_group h (LastColumn a) m comb)"
      by (rule combine_group_frame)
    moreover have "frame {a} (combine_group h (LastColumn a) m comb)
        (snd (combine_classes_' (combine_group h (LastColumn a) m comb) (LastColumn a) g))"
      by (rule Cons.IH)
    ultimately show ?thesis using Inr by (simp add: frame_trans)
  qed
qed

lemma combine_classes_'_result:
  "fst (combine_classes_' h col g) = Inr res \<Longrightarrow> res = col"
  by (induction g arbitrary: h) (auto split: sum.splits)

lemma dict_get_Inr: "dict_get d k = Inr a \<Longrightarrow> (k, a) \<in> set d"
  by (auto simp: dict_get_def split: option.splits dest: map_of_SomeD)

lemma last_column_Inr: "last_column h a = Inr col \<Longrightarrow> col = LastColumn a"
  by (auto simp: last_column_def split: ndarray.splits if_splits)

lemma renumerate_loop_frame:
  "frame (snd ` set d) h (snd (renumerate_loop h d is))"
proof (induction "is" arbitrary: h)
  case Nil
  then show ?case by (simp add: frame_refl)
next
  case (Cons i "is")
  show ?case
  proof (cases "dict_get d (int i)")
    case (Inl e)
    then show ?thesis by (simp add: frame_refl)
  next
    case a: (Inr a)
    then have mem: "a \<in> snd ` set d" by (force dest: dict_get_Inr)
    show ?thesis
    proof (cases "last_column h a")
      case (Inl e)
      with a show ?thesis by (simp add: frame_refl)
    next
      case col: (Inr col)
      show ?thesis
      proof (cases "renumerate_classes_' (read_labels h col) True")
        case (Inl e)
        with a col show ?thesis by (simp add: frame_refl)
      next
        case new: (Inr new)
        show ?thesis
        proof (cases "set_last_column h a new")
          case (Inl e)
          with a col new show ?thesis by (simp add: frame_refl)
        next
          case (Inr h')
          then obtain y where "h' = h[a := y]" "same_coordinates (h ! a) y"
            using set_last_column_Inr by blast
          with mem have f1: "frame (snd ` set d) h h'" by (simp add: frame_update)
          have f2: "frame (snd ` set d) h' (snd (renumerate_loop h' d is))"
            by (rule Cons.IH)
          have eq: "renumerate_loop h d (i # is) = renumerate_loop h' d is"
            using a col new Inr by simp
          show ?thesis unfolding eq by (rule frame_trans [OF f1 f2])
        qed
      qed
    qed
  qed
qed

lemma combine_loop_frame:
  "frame (snd ` set d) h (snd (combine_loop h d g is))"
proof (induction "is" arbitrary: h)
  case Nil
  then show ?case by (simp add: frame_refl)
next
  case (Cons i "is")
  show ?case
  proof (cases "dict_get d (int i)")
    case (Inl e)
    then show ?thesis by (simp add: frame_refl)
  next
    case a: (Inr a)
    then have mem: "a \<in> snd ` set d" by (force dest: dict_get_Inr)
    show ?thesis
    proof (cases "last_column h a")
      case (Inl e)
      with a show ?thesis by (simp add: frame_refl)
    next
      case col: (Inr col)
      then have col_eq: "col = LastColumn a" by (rule last_column_Inr)
      obtain r h1 where c: "combine_classes_' h col g = (r, h1)" by (cases "combine_classes_' h col g")
      have "frame {a} h h1"
        using combine_classes_'_frame [of a h g] c col_eq by simp
      with mem have f1: "frame (snd ` set d) h h1" by (auto intro: frame_mono)
      show ?thesis
      proof (cases r)
        case (Inl e)
        with a col c f1 show ?thesis by simp
      next
        case res: (Inr res)
        show ?thesis
        proof (cases "set_last_column h1 a (read_labels h1 res)")
          case (Inl e)
          with a col c res f1 show ?thesis by simp
        next
          case (Inr h2)
          then obtain y where "h2 = h1[a := y]" "same_coordinates (h1 ! a) y"
            using set_last_column_Inr by blast
          with mem have f2: "frame (snd ` set d) h1 h2" by (simp add: frame_update)
          have f3: "frame (snd ` set d) h2 (snd (combine_loop h2 d g is))"
            by (rule Cons.IH)
          have eq: "combine_loop h d g (i # is) = combine_loop h2 d g is"
            using a col c res Inr by simp
          show ?thesis unfolding eq by (rule frame_trans [OF frame_trans [OF f1 f2] f3])
        qed
      qed
    qed
  qed
qed

subsection \<open>Deep copies\<close>

lemma deepcopy_items_keys:
  "deepcopy_items memo h d = (d', h') \<Longrightarrow> map fst d' = map fst d"
  by (induction memo h d arbitrary: d' h' rule: deepcopy_items.induct)
     (auto split: option.splits prod.splits)

lemma deepcopy_items_extends:
  "deepcopy_items memo h d = (d', h') \<Longrightarrow> \<exists>new. h' = h @ new"
proof (induction memo h d arbitrary: d' h' rule: deepcopy_items.induct)
  case (1 memo h)
  then show ?case by simp
next
  case (2 memo h k a d)
  show ?case
  proof (cases "map_of memo a")
    case None
    obtain d1 h1 where r: "deepcopy_items ((a, length h) # memo) (h @ [h ! a]) d = (d1, h1)"
      by (cases "deepcopy_items ((a, length h) # memo) (h @ [h ! a]) d")
    from "2.IH"(1) [OF None r] obtain new where "h1 = (h @ [h ! a]) @ new" by blast
    moreover from "2.prems" None r have "h' = h1" by simp
    ultimately show ?thesis by simp
  next
    case (Some a')
    obtain d1 h1 where r: "deepcopy_items memo h d = (d1, h1)"
      by (cases "deepcopy_items memo h d")
    from "2.IH"(2) [OF Some r] obtain new where "h1 = h @ new" by blast
    moreover from "2.prems" Some r have "h' = h1" by simp
    ultimately show ?thesis by simp
  qed
qed

text \<open>
  The memo is sound in a store when each of its pairs relates an array to a copy of it
  that is an object of the store created at or after the address \<open>n\<close>.
\<close>

lemma deepcopy_items_copy:
  assumes "deepcopy_items memo h d = (d', h')"
    and "\<forall>(a, a') \<in> set memo. a < n \<and> n \<le> a' \<and> a' < length h \<and> h ! a' = h ! a"
    and "\<forall>(k, a) \<in> set d. a < n"
    and "n \<le> length h"
  shows "list_all2 (\<lambda>(k, a) (k', a'). k' = k \<and> n \<le> a' \<and> a' < length h' \<and> h' ! a' = h ! a) d d'"
  using assms
proof (induction memo h d arbitrary: d' h' rule: deepcopy_items.induct)
  case (1 memo h)
  then show ?case by simp
next
  case (2 memo h k a d)
  from "2.prems"(3) have a: "a < n" and rest: "\<forall>(k, a) \<in> set d. a < n" by auto
  show ?case
  proof (cases "map_of memo a")
    case None
    let ?memo = "(a, length h) # memo" and ?h = "h @ [h ! a]"
    obtain d1 h1 where r: "deepcopy_items ?memo ?h d = (d1, h1)"
      by (cases "deepcopy_items ?memo ?h d")
    from "2.prems"(1) None r have res: "d' = (k, length h) # d1" "h' = h1" by simp_all
    have memo: "\<forall>(b, b') \<in> set ?memo. b < n \<and> n \<le> b' \<and> b' < length ?h \<and> ?h ! b' = ?h ! b"
      using "2.prems"(2,4) a by (auto simp: nth_append)
    have "list_all2 (\<lambda>(k, a) (k', a'). k' = k \<and> n \<le> a' \<and> a' < length h1 \<and> h1 ! a' = ?h ! a) d d1"
      using "2.IH"(1) [OF None r memo rest] "2.prems"(4) by simp
    moreover have "?h ! b = h ! b" if "(j, b) \<in> set d" for j b
      using that rest "2.prems"(4) by (auto simp: nth_append)
    ultimately have tl: "list_all2 (\<lambda>(k, a) (k', a'). k' = k \<and> n \<le> a' \<and> a' < length h1 \<and> h1 ! a' = h ! a) d d1"
      by (auto elim!: list.rel_mono_strong)
    from deepcopy_items_extends [OF r] obtain new where new: "h1 = ?h @ new" by blast
    then have "length h < length h1" "h1 ! length h = h ! a"
      by (simp_all add: nth_append)
    with tl res "2.prems"(4) show ?thesis by simp
  next
    case (Some a')
    obtain d1 h1 where r: "deepcopy_items memo h d = (d1, h1)"
      by (cases "deepcopy_items memo h d")
    from "2.prems"(1) Some r have res: "d' = (k, a') # d1" "h' = h1" by simp_all
    have tl: "list_all2 (\<lambda>(k, a) (k', a'). k' = k \<and> n \<le> a' \<and> a' < length h1 \<and> h1 ! a' = h ! a) d d1"
      using "2.IH"(2) [OF Some r "2.prems"(2) rest "2.prems"(4)] .
    from Some have "(a, a') \<in> set memo" by (rule map_of_SomeD)
    with "2.prems"(2) have m: "n \<le> a'" "a' < length h" "h ! a' = h ! a" by auto
    from deepcopy_items_extends [OF r] obtain new where new: "h1 = h @ new" by blast
    with m have "a' < length h1" "h1 ! a' = h ! a" by (simp_all add: nth_append)
    with tl res m show ?thesis by simp
  qed
qed

lemma deepcopy_copy:
  assumes "deepcopy h d = (d', h')" and "\<forall>(k, a) \<in> set d. a < length h"
  shows "list_all2 (\<lambda>(k, a) (k', a'). k' = k \<and> length h \<le> a' \<and> a' < length h' \<and> h' ! a' = h ! a) d d'"
  using deepcopy_items_copy [of "[]" h d d' h' "length h"] assms
  by (simp add: deepcopy_def)

text \<open>Without any assumption on the dictionary, the copy refers to new objects only.\<close>

lemma deepcopy_items_fresh:
  assumes "deepcopy_items memo h d = (d', h')"
    and "\<forall>(a, a') \<in> set memo. n \<le> a'"
    and "n \<le> length h"
  shows "\<forall>(k, a') \<in> set d'. n \<le> a'"
  using assms
proof (induction memo h d arbitrary: d' h' rule: deepcopy_items.induct)
  case (1 memo h)
  then show ?case by simp
next
  case (2 memo h k a d)
  show ?case
  proof (cases "map_of memo a")
    case None
    obtain d1 h1 where r: "deepcopy_items ((a, length h) # memo) (h @ [h ! a]) d = (d1, h1)"
      by (cases "deepcopy_items ((a, length h) # memo) (h @ [h ! a]) d")
    from "2.prems"(1) None r have res: "d' = (k, length h) # d1" by simp
    have "\<forall>(k, a') \<in> set d1. n \<le> a'"
      using "2.IH"(1) [OF None r] "2.prems"(2,3) by simp
    with res "2.prems"(3) show ?thesis by simp
  next
    case (Some a')
    obtain d1 h1 where r: "deepcopy_items memo h d = (d1, h1)"
      by (cases "deepcopy_items memo h d")
    from "2.prems"(1) Some r have res: "d' = (k, a') # d1" by simp
    have "\<forall>(k, a') \<in> set d1. n \<le> a'"
      using "2.IH"(2) [OF Some r "2.prems"(2,3)] .
    moreover from Some have "(a, a') \<in> set memo" by (rule map_of_SomeD)
    ultimately show ?thesis using res "2.prems"(2) by auto
  qed
qed

lemma deepcopy_fresh:
  "deepcopy h d = (d', h') \<Longrightarrow> a' \<in> snd ` set d' \<Longrightarrow> length h \<le> a'"
  using deepcopy_items_fresh [of "[]" h d d' h' "length h"]
  by (auto simp: deepcopy_def)

lemma deepcopy_extends: "deepcopy h d = (d', h') \<Longrightarrow> \<exists>new. h' = h @ new"
  by (simp add: deepcopy_def deepcopy_items_extends)

lemma deepcopy_keys: "deepcopy h d = (d', h') \<Longrightarrow> map fst d' = map fst d"
  by (simp add: deepcopy_def deepcopy_items_keys)

text \<open>A loop that writes only to new objects leaves the objects of the old store alone.\<close>

lemma frame_fresh_prefix:
  assumes "h1 = h @ new" and "frame A h1 h2" and "\<forall>a \<in> A. length h \<le> a"
  shows "take (length h) h2 = h"
proof (rule nth_equalityI)
  from assms(1,2) show len: "length (take (length h) h2) = length h"
    by (simp add: frame_def)
  fix i assume "i < length (take (length h) h2)"
  with len have i: "i < length h" by simp
  with assms(3) have "i \<notin> A" by auto
  moreover from i assms(1) have "i < length h1" by simp
  ultimately have "h2 ! i = h1 ! i" using assms(2) by (simp add: frame_def)
  with i assms(1) show "take (length h) h2 ! i = h ! i" by (simp add: nth_append)
qed

subsection \<open>The caller's arrays are not written\<close>

lemma renumerate_classes_snd:
  "deepcopy h d = (dc, h1) \<Longrightarrow>
   snd (renumerate_classes h d flag) = snd (renumerate_loop h1 dc [0..<length d])"
  by (simp add: renumerate_classes_def split: prod.splits sum.splits)

lemma renumerate_classes_fst:
  "deepcopy h d = (dc, h1) \<Longrightarrow> renumerate_classes h d flag = (Inr d', h') \<Longrightarrow> d' = dc"
  by (auto simp: renumerate_classes_def split: prod.splits sum.splits)

lemma renumerate_classes_prefix:
  "take (length h) (snd (renumerate_classes h d flag)) = h"
proof -
  obtain dc h1 where c: "deepcopy h d = (dc, h1)" by (cases "deepcopy h d")
  from deepcopy_extends [OF c] obtain new where new: "h1 = h @ new" by blast
  have "frame (snd ` set dc) h1 (snd (renumerate_loop h1 dc [0..<length d]))"
    by (rule renumerate_loop_frame)
  moreover have "\<forall>a \<in> snd ` set dc. length h \<le> a"
    using deepcopy_fresh [OF c] by blast
  ultimately have "take (length h) (snd (renumerate_loop h1 dc [0..<length d])) = h"
    using new by (intro frame_fresh_prefix)
  then show ?thesis by (simp add: renumerate_classes_snd [OF c])
qed

lemma renumerate_classes_length:
  "length h \<le> length (snd (renumerate_classes h d flag))"
proof -
  have "length (take (length h) (snd (renumerate_classes h d flag))) = length h"
    by (simp only: renumerate_classes_prefix)
  then show ?thesis by simp
qed

lemma copy_then_frame:
  assumes copy: "list_all2 (\<lambda>(k, a) (k', a'). k' = k \<and> length h \<le> a' \<and> a' < length h1 \<and> h1 ! a' = h ! a) d dc"
    and fr: "frame A h1 h2"
  shows "copy_of h d h2 dc"
proof -
  have len: "length h2 = length h1" using fr by (simp add: frame_def)
  have sc: "same_coordinates (h1 ! a) (h2 ! a)" if "a < length h1" for a
    using fr that by (simp add: frame_def)
  from copy show ?thesis
    unfolding copy_of_def
  proof (induction d dc rule: list_all2_induct)
    case Nil
    then show ?case by simp
  next
    case (Cons x xs y ys)
    obtain k a where x: "x = (k, a)" by (cases x)
    obtain k' a' where y: "y = (k', a')" by (cases y)
    from Cons.hyps(1) x y have a': "k' = k" "length h \<le> a'" "a' < length h1" "h1 ! a' = h ! a"
      by simp_all
    from sc [OF a'(3)] a'(4) have "same_coordinates (h ! a) (h2 ! a')" by simp
    with a' len Cons.IH x y show ?case by simp
  qed
qed

lemma renumerate_classes_copy:
  assumes "renumerate_classes h d flag = (Inr d', h')" and "\<forall>(k, a) \<in> set d. a < length h"
  shows "copy_of h d h' d'"
proof -
  obtain dc h1 where c: "deepcopy h d = (dc, h1)" by (cases "deepcopy h d")
  from renumerate_classes_fst [OF c assms(1)] have d': "d' = dc" .
  from renumerate_classes_snd [OF c, of flag] assms(1)
  have h': "h' = snd (renumerate_loop h1 dc [0..<length d])" by simp
  have "frame (snd ` set dc) h1 h'"
    unfolding h' by (rule renumerate_loop_frame)
  with deepcopy_copy [OF c assms(2)] show ?thesis
    unfolding d' by (rule copy_then_frame)
qed

lemma copy_of_valid: "copy_of h d h' d' \<Longrightarrow> \<forall>(k, a') \<in> set d'. a' < length h'"
  unfolding copy_of_def
  by (induction d d' rule: list_all2_induct) auto

lemma copy_of_trans:
  assumes "copy_of h d h2 dc" and "copy_of h2 dc h4 d'" and "length h \<le> length h2"
  shows "copy_of h d h4 d'"
  using assms unfolding copy_of_def
proof (induction d dc arbitrary: d' rule: list_all2_induct)
  case Nil
  then show ?case by simp
next
  case (Cons x xs y ys)
  from Cons.prems(1) obtain z zs where d': "d' = z # zs"
    by (cases d') auto
  obtain k a where x: "x = (k, a)" by (cases x)
  obtain k' a' where y: "y = (k', a')" by (cases y)
  obtain k'' a'' where z: "z = (k'', a'')" by (cases z)
  from Cons.hyps(1) Cons.prems(1) x y z d' Cons.prems(2)
  have "k'' = k \<and> length h \<le> a'' \<and> a'' < length h4 \<and> same_coordinates (h ! a) (h4 ! a'')"
    by (auto intro: same_coordinates_trans)
  moreover have "list_all2 (\<lambda>(k, a) (k', a'). k' = k \<and> length h \<le> a' \<and> a' < length h4 \<and>
                  same_coordinates (h ! a) (h4 ! a')) xs zs"
    using Cons.IH [of zs] Cons.prems d' by simp
  ultimately show ?case using d' x z by simp
qed

lemma combine_classes_cases:
  assumes c: "deepcopy h d = (dc, h1)"
    and l: "combine_loop h1 dc g [0..<length dc] = (r, h2)"
  shows "combine_classes h d g renum =
           (case r of Inl e \<Rightarrow> (Inl e, h2)
            | Inr u \<Rightarrow> if renum then renumerate_classes h2 dc True else (Inr dc, h2))"
  using c l by (simp add: combine_classes_def split: sum.splits)

lemma combine_classes_prefix:
  "take (length h) (snd (combine_classes h d g renum)) = h"
proof -
  obtain dc h1 where c: "deepcopy h d = (dc, h1)" by (cases "deepcopy h d")
  obtain r h2 where l: "combine_loop h1 dc g [0..<length dc] = (r, h2)"
    by (cases "combine_loop h1 dc g [0..<length dc]")
  from deepcopy_extends [OF c] obtain new where new: "h1 = h @ new" by blast
  have "frame (snd ` set dc) h1 (snd (combine_loop h1 dc g [0..<length dc]))"
    by (rule combine_loop_frame)
  with l have "frame (snd ` set dc) h1 h2" by simp
  moreover have "\<forall>a \<in> snd ` set dc. length h \<le> a"
    using deepcopy_fresh [OF c] by blast
  ultimately have p2: "take (length h) h2 = h"
    using new by (intro frame_fresh_prefix)
  then have len: "length h \<le> length h2"
    by (metis length_take min.cobounded1 min.commute)
  let ?h4 = "snd (renumerate_classes h2 dc True)"
  have "take (length h2) ?h4 = h2" by (rule renumerate_classes_prefix)
  then have "take (length h) (take (length h2) ?h4) = take (length h) h2" by simp
  with len p2 have p4: "take (length h) ?h4 = h" by (simp add: min_def)
  show ?thesis
    using p2 p4 by (simp add: combine_classes_cases [OF c l] split: sum.splits)
qed

lemma combine_classes_copy:
  assumes res: "combine_classes h d g renum = (Inr d', h')"
    and valid: "\<forall>(k, a) \<in> set d. a < length h"
  shows "copy_of h d h' d'"
proof -
  obtain dc h1 where c: "deepcopy h d = (dc, h1)" by (cases "deepcopy h d")
  obtain r h2 where l: "combine_loop h1 dc g [0..<length dc] = (r, h2)"
    by (cases "combine_loop h1 dc g [0..<length dc]")
  have "frame (snd ` set dc) h1 (snd (combine_loop h1 dc g [0..<length dc]))"
    by (rule combine_loop_frame)
  with l have fr: "frame (snd ` set dc) h1 h2" by simp
  from deepcopy_copy [OF c valid] fr have c2: "copy_of h d h2 dc"
    by (rule copy_then_frame)
  from deepcopy_extends [OF c] fr have len: "length h \<le> length h2"
    by (auto simp: frame_def)
  from res obtain u where r: "r = Inr u"
    by (cases r) (simp_all add: combine_classes_cases [OF c l])
  show ?thesis
  proof (cases renum)
    case False
    with res r c2 show ?thesis by (simp add: combine_classes_cases [OF c l])
  next
    case True
    with res r have "renumerate_classes h2 dc True = (Inr d', h')"
      by (simp add: combine_classes_cases [OF c l])
    then have "copy_of h2 dc h' d'"
      using copy_of_valid [OF c2] by (rule renumerate_classes_copy)
    with c2 show ?thesis using len by (rule copy_of_trans)
  qed
qed

text \<open>
  C9: \<open>combine_classes\<close> and \<open>renumerate_classes\<close> never write into the dictionary they
  are given. Whatever the outcome, an exception included, the store ends with every
  object the caller had, unchanged. When they return, the dictionary returned has the
  caller's keys and refers to new arrays only, each agreeing with the caller's array
  under the same key in every column but the last.
\<close>

theorem class_utilities_leave_input_unchanged:
  "take (length h) (snd (renumerate_classes h d flag)) = h
   \<and> take (length h) (snd (combine_classes h d g renum)) = h
   \<and> ((\<forall>(k, a) \<in> set d. a < length h) \<longrightarrow>
        (\<forall>d' h'. renumerate_classes h d flag = (Inr d', h') \<longrightarrow> copy_of h d h' d') \<and>
        (\<forall>d' h'. combine_classes h d g renum = (Inr d', h') \<longrightarrow> copy_of h d h' d'))"
  using renumerate_classes_prefix combine_classes_prefix
    renumerate_classes_copy combine_classes_copy
  by blast

theorem class_utilities_leave_input_unchanged_witness:
  "renumerate_classes [Matrix [[1 / 2, 3], [2, 7], [1, 3]]] [(0, 0)] False
       = (Inr [(0, 1)], [Matrix [[1 / 2, 3], [2, 7], [1, 3]], Matrix [[1 / 2, 1], [2, 2], [1, 1]]])
   \<and> copy_of [Matrix [[1 / 2, 3], [2, 7], [1, 3]]] [(0, 0)]
         [Matrix [[1 / 2, 3], [2, 7], [1, 3]], Matrix [[1 / 2, 1], [2, 2], [1, 1]]] [(0, 1)]
   \<and> combine_classes [Matrix [[1 / 2, 3], [2, 7], [1, 3]]] [(0, 0)] [[7, 3]] False
       = (Inr [(0, 1)], [Matrix [[1 / 2, 3], [2, 7], [1, 3]], Matrix [[1 / 2, 3], [2, 3], [1, 3]]])
   \<and> copy_of [Matrix [[1 / 2, 3], [2, 7], [1, 3]]] [(0, 0)]
         [Matrix [[1 / 2, 3], [2, 7], [1, 3]], Matrix [[1 / 2, 3], [2, 3], [1, 3]]] [(0, 1)]"
proof -
  let ?h = "[Matrix [[1 / 2, 3], [2, 7], [1, 3]]]"
  have v: "\<forall>(k, a) \<in> set [(0, 0)]. a < length ?h" by simp
  have r: "renumerate_classes ?h [(0, 0)] False
       = (Inr [(0, 1)], [Matrix [[1 / 2, 3], [2, 7], [1, 3]], Matrix [[1 / 2, 1], [2, 2], [1, 1]]])"
    by (simp add: renumerate_classes_def deepcopy_def dict_get_def last_column_def
          set_last_column_def renumerate_classes_'_def np_unique_def np_arange_def
          dict_of_pairs_def)
  have c: "combine_classes ?h [(0, 0)] [[7, 3]] False
       = (Inr [(0, 1)], [Matrix [[1 / 2, 3], [2, 7], [1, 3]], Matrix [[1 / 2, 3], [2, 3], [1, 3]]])"
    by (simp add: combine_classes_def deepcopy_def dict_get_def last_column_def
          set_last_column_def py_min_def)
  note main = class_utilities_leave_input_unchanged [of ?h "[(0, 0)]" False "[[7, 3]]" False]
  note both = main [THEN conjunct2, THEN conjunct2, THEN mp, OF v]
  have "copy_of ?h [(0, 0)]
         [Matrix [[1 / 2, 3], [2, 7], [1, 3]], Matrix [[1 / 2, 1], [2, 2], [1, 1]]] [(0, 1)]"
    by (rule both [THEN conjunct1, THEN spec, THEN spec, THEN mp, OF r])
  moreover have "copy_of ?h [(0, 0)]
         [Matrix [[1 / 2, 3], [2, 7], [1, 3]], Matrix [[1 / 2, 3], [2, 3], [1, 3]]] [(0, 1)]"
    by (rule both [THEN conjunct2, THEN spec, THEN spec, THEN mp, OF c])
  ultimately show ?thesis using r c by (intro conjI)
qed

subsection \<open>Ranks are the numbers below the number of labels\<close>

lemma label_rank_less:
  assumes "a \<in> set ls" "b \<in> set ls" "a < b"
  shows "label_rank ls a < label_rank ls b"
proof -
  have "{x \<in> set ls. x < a} \<subset> {x \<in> set ls. x < b}"
    using assms by auto
  then show ?thesis
    unfolding label_rank_def by (intro psubset_card_mono) simp_all
qed

lemma label_rank_less_iff:
  assumes "a \<in> set ls" "b \<in> set ls"
  shows "label_rank ls a < label_rank ls b \<longleftrightarrow> a < b"
proof
  assume "a < b" with assms show "label_rank ls a < label_rank ls b"
    by (rule label_rank_less)
next
  assume r: "label_rank ls a < label_rank ls b"
  show "a < b"
  proof (rule ccontr)
    assume "\<not> a < b"
    then have "b = a \<or> b < a" by auto
    then have "label_rank ls b \<le> label_rank ls a"
      using label_rank_less [OF assms(2) assms(1)] by auto
    with r show False by simp
  qed
qed

lemma label_rank_inj: "inj_on (label_rank ls) (set ls)"
proof (rule inj_onI)
  fix a b assume ab: "a \<in> set ls" "b \<in> set ls" "label_rank ls a = label_rank ls b"
  show "a = b"
  proof (rule ccontr)
    assume "a \<noteq> b"
    then have "a < b \<or> b < a" by auto
    with ab show False
      using label_rank_less [of a ls b] label_rank_less [of b ls a] by auto
  qed
qed

lemma label_rank_image: "label_rank ls ` set ls = {0..<card (set ls)}"
proof (rule card_subset_eq)
  show "finite {0..<card (set ls)}" by simp
  show "label_rank ls ` set ls \<subseteq> {0..<card (set ls)}"
  proof
    fix r assume "r \<in> label_rank ls ` set ls"
    then obtain c where c: "c \<in> set ls" "r = label_rank ls c" by auto
    have "{x \<in> set ls. x < c} \<subset> set ls" using c(1) by auto
    then have "card {x \<in> set ls. x < c} < card (set ls)"
      by (intro psubset_card_mono) simp_all
    with c(2) show "r \<in> {0..<card (set ls)}" by (simp add: label_rank_def)
  qed
  show "card (label_rank ls ` set ls) = card {0..<card (set ls)}"
    by (simp add: card_image label_rank_inj)
qed

text \<open>The labels after a renumeration from 1.\<close>

lemma renumerate_from_1:
  "renumerate_classes_' ls True = Inr (map (\<lambda>c. real (label_rank ls c) + 1) ls)"
  using renumerate_general [of ls True] by simp

lemma renumerate_from_1_set:
  "set (map (\<lambda>c. real (label_rank ls c) + 1) ls) = (\<lambda>n. real n + 1) ` {0..<card (set ls)}"
proof -
  have "set (map (\<lambda>c. real (label_rank ls c) + 1) ls)
          = (\<lambda>n. real n + 1) ` (label_rank ls ` set ls)"
    by (simp add: image_image)
  then show ?thesis by (simp only: label_rank_image)
qed

lemma renumerate_from_1_card:
  "card (set (map (\<lambda>c. real (label_rank ls c) + 1) ls)) = card (set ls)"
proof -
  have "inj_on (\<lambda>n. real n + 1) {0..<card (set ls)}"
    by (rule inj_onI) simp
  then show ?thesis
    by (simp only: renumerate_from_1_set card_image) simp
qed

lemma renumerate_from_1_contiguous:
  "contiguous_from_1 (map (\<lambda>c. real (label_rank ls c) + 1) ls)"
proof -
  let ?n = "card (set ls)"
  have "(\<lambda>n. real n + 1) ` {0..<?n} = real ` {1..<Suc ?n}"
  proof (intro set_eqI iffI)
    fix x assume "x \<in> (\<lambda>n. real n + 1) ` {0..<?n}"
    then obtain n where "n < ?n" "x = real (Suc n)" by auto
    then show "x \<in> real ` {1..<Suc ?n}" by (intro image_eqI [of _ _ "Suc n"]) simp_all
  next
    fix x assume "x \<in> real ` {1..<Suc ?n}"
    then obtain m where m: "1 \<le> m" "m < Suc ?n" "x = real m" by auto
    then show "x \<in> (\<lambda>n. real n + 1) ` {0..<?n}"
      by (intro image_eqI [of _ _ "m - 1"]) (auto simp: of_nat_diff)
  qed
  then show ?thesis
    unfolding contiguous_from_1_def renumerate_from_1_card
    by (simp only: renumerate_from_1_set set_map set_upt)
qed

text \<open>Renumbering labels that are already renumbered changes nothing.\<close>

lemma label_rank_renumbered:
  assumes "c \<in> set ls"
  shows "label_rank (map (\<lambda>c. real (label_rank ls c) + 1) ls) (real (label_rank ls c) + 1)
           = label_rank ls c"
proof -
  let ?f = "\<lambda>c. real (label_rank ls c) + 1"
  have "{y \<in> set (map ?f ls). y < ?f c} = ?f ` {x \<in> set ls. x < c}"
    using assms by (auto simp: label_rank_less_iff)
  moreover have "inj_on ?f {x \<in> set ls. x < c}"
  proof (rule inj_onI)
    fix a b assume "a \<in> {x \<in> set ls. x < c}" "b \<in> {x \<in> set ls. x < c}" "?f a = ?f b"
    then have "a \<in> set ls" "b \<in> set ls" "label_rank ls a = label_rank ls b" by simp_all
    then show "a = b" using label_rank_inj [of ls] by (auto dest: inj_onD)
  qed
  ultimately show ?thesis
    by (simp add: label_rank_def card_image)
qed

lemma renumerate_idem:
  "map (\<lambda>y. real (label_rank (map (\<lambda>c. real (label_rank ls c) + 1) ls) y) + 1)
       (map (\<lambda>c. real (label_rank ls c) + 1) ls)
   = map (\<lambda>c. real (label_rank ls c) + 1) ls"
  by (simp add: label_rank_renumbered)

lemma snoc_map2_same:
  "length vs = length rows \<Longrightarrow>
   map2 (\<lambda>row v. butlast row @ [v]) (map2 (\<lambda>row v. butlast row @ [v]) rows vs) vs
     = map2 (\<lambda>row v. butlast row @ [v]) rows vs"
  by (induction rows vs rule: list_induct2') simp_all

lemma renumbered_Matrix:
  "renumbered (Matrix rows)
     = Matrix (map2 (\<lambda>row v. butlast row @ [v]) rows
                 (map (\<lambda>c. real (label_rank (map last rows) c) + 1) (map last rows)))"
  by (simp only: renumbered_def ndarray.case renumerate_from_1 sum.case)

lemma renumbered_idem: "renumbered (renumbered x) = renumbered x"
proof (cases x)
  case (Flat xs)
  then show ?thesis by (simp add: renumbered_def)
next
  case (Matrix rows)
  let ?ls = "map last rows"
  let ?new = "map (\<lambda>c. real (label_rank ?ls c) + 1) ?ls"
  let ?rows' = "map2 (\<lambda>row v. butlast row @ [v]) rows ?new"
  have len: "length ?new = length rows" by simp
  have last: "map last ?rows' = ?new" by (rule last_map2_snoc [OF len])
  have "renumbered (Matrix ?rows')
          = Matrix (map2 (\<lambda>row v. butlast row @ [v]) ?rows'
               (map (\<lambda>c. real (label_rank ?new c) + 1) ?new))"
    by (simp only: renumbered_Matrix last)
  also have "map (\<lambda>c. real (label_rank ?new c) + 1) ?new = ?new"
    by (rule renumerate_idem)
  also have "map2 (\<lambda>row v. butlast row @ [v]) ?rows' ?new = ?rows'"
    by (rule snoc_map2_same [OF len])
  finally show ?thesis using Matrix by (simp only: renumbered_Matrix)
qed

lemma renumbered_same_coordinates: "same_coordinates x (renumbered x)"
proof (cases x)
  case (Flat xs)
  then show ?thesis by (simp add: renumbered_def same_coordinates_def)
next
  case (Matrix rows)
  then show ?thesis
    by (simp only: renumbered_Matrix) (rule same_coordinates_map2, simp)
qed

lemma renumbered_has_columns: "has_columns x \<Longrightarrow> has_columns (renumbered x)"
  using renumbered_same_coordinates by (rule same_coordinates_has_columns)

lemma renumbered_labels:
  assumes "a < length h" "h ! a = renumbered x" "has_columns x"
  shows "contiguous_from_1 (class_labels h a)"
proof -
  from assms(3) obtain rows where x: "x = Matrix rows"
    by (cases x) (simp_all add: has_columns_def)
  let ?ls = "map last rows"
  let ?new = "map (\<lambda>c. real (label_rank ?ls c) + 1) ?ls"
  have "class_labels h a = map last (map2 (\<lambda>row v. butlast row @ [v]) rows ?new)"
    using assms(2) x by (simp add: class_labels_def renumbered_Matrix)
  also have "\<dots> = ?new" by (rule last_map2_snoc) simp
  finally show ?thesis by (simp only: renumerate_from_1_contiguous)
qed

subsection \<open>Rounds of the loops\<close>

lemma wf_dict_valid: "wf_dict h d \<Longrightarrow> valid_entries h d"
  by (simp add: wf_dict_def valid_entries_def)

lemma valid_entriesD:
  "valid_entries h d \<Longrightarrow> (k, a) \<in> set d \<Longrightarrow> a < length h \<and> has_columns (h ! a)"
  by (auto simp: valid_entries_def list_all_iff)

lemma valid_entries_frame:
  assumes "valid_entries h d" "frame A h h'"
  shows "valid_entries h' d"
  unfolding valid_entries_def list_all_iff
proof (clarify)
  fix k a assume "(k, a) \<in> set d"
  with assms(1) have a: "a < length h" "has_columns (h ! a)" by (auto dest: valid_entriesD)
  from assms(2) a(1) have "length h' = length h" "same_coordinates (h ! a) (h' ! a)"
    by (simp_all add: frame_def)
  with a show "a < length h' \<and> has_columns (h' ! a)"
    by (auto intro: same_coordinates_has_columns)
qed

lemma dict_get_present:
  assumes "k \<in> fst ` set d"
  shows "\<exists>a. dict_get d k = Inr a \<and> (k, a) \<in> set d"
proof -
  from assms have "map_of d k \<noteq> None" by (simp add: map_of_eq_None_iff)
  then obtain a where "map_of d k = Some a" by auto
  then show ?thesis by (auto simp: dict_get_def dest: map_of_SomeD)
qed

lemma dict_get_the: "dict_get d k = Inr a \<Longrightarrow> the (map_of d k) = a"
  by (auto simp: dict_get_def split: option.splits)

lemma dict_get_missing: "k \<notin> fst ` set d \<Longrightarrow> dict_get d k = Inl (KeyError (KInt k))"
  by (simp add: dict_get_def map_of_eq_None_iff [THEN iffD2])

lemma has_columns_Matrix:
  "has_columns x \<Longrightarrow> \<exists>rows. x = Matrix rows \<and> [] \<notin> set rows"
  by (cases x) (simp_all add: has_columns_def)

lemma renumerate_step:
  assumes "a < length h" "has_columns (h ! a)" "dict_get d (int i) = Inr a"
  shows "renumerate_loop h d (i # is) = renumerate_loop (renumber_entry d i h) d is"
proof -
  from assms(2) obtain rows where rows: "h ! a = Matrix rows" "[] \<notin> set rows"
    using has_columns_Matrix by blast
  let ?new = "map (\<lambda>c. real (label_rank (map last rows) c) + 1) (map last rows)"
  have col: "last_column h a = Inr (LastColumn a)"
    using rows by (simp add: last_column_def)
  have rd: "read_labels h (LastColumn a) = map last rows"
    using rows by simp
  have rn: "renumerate_classes_' (map last rows) True = Inr ?new"
    by (rule renumerate_from_1)
  have st: "set_last_column h a ?new = Inr (h[a := renumbered (h ! a)])"
    using rows by (simp add: set_last_column_def renumbered_Matrix)
  have "renumber_entry d i h = h[a := renumbered (h ! a)]"
    using dict_get_the [OF assms(3)] by (simp add: renumber_entry_def)
  with assms(3) col rd rn st show ?thesis by simp
qed

lemma renumber_entry_frame:
  assumes "dict_get d (int i) = Inr a"
  shows "frame (snd ` set d) h (renumber_entry d i h)"
proof -
  from assms have "a \<in> snd ` set d" by (force dest: dict_get_Inr)
  moreover have "renumber_entry d i h = h[a := renumbered (h ! a)]"
    using dict_get_the [OF assms] by (simp add: renumber_entry_def)
  ultimately show ?thesis
    by (simp add: frame_update renumbered_same_coordinates)
qed

lemma renumerate_loop_ok:
  assumes "valid_entries h d" "\<forall>i \<in> set is. int i \<in> fst ` set d"
  shows "renumerate_loop h d is = (Inr (), fold (renumber_entry d) is h)"
  using assms
proof (induction "is" arbitrary: h)
  case Nil
  then show ?case by simp
next
  case (Cons i "is")
  from Cons.prems(2) obtain a where a: "dict_get d (int i) = Inr a" "(int i, a) \<in> set d"
    using dict_get_present [of "int i" d] by auto
  from valid_entriesD [OF Cons.prems(1) a(2)] have v: "a < length h" "has_columns (h ! a)"
    by simp_all
  have "valid_entries (renumber_entry d i h) d"
    using Cons.prems(1) renumber_entry_frame [OF a(1)] by (rule valid_entries_frame)
  then have "renumerate_loop (renumber_entry d i h) d is
               = (Inr (), fold (renumber_entry d) is (renumber_entry d i h))"
    using Cons.prems(2) by (intro Cons.IH) simp_all
  then show ?case by (simp only: renumerate_step [OF v a(1)] fold_simps)
qed

lemma renumerate_loop_fail:
  assumes "valid_entries h d" "\<forall>i \<in> set xs. int i \<in> fst ` set d" "int k \<notin> fst ` set d"
  shows "fst (renumerate_loop h d (xs @ k # ys)) = Inl (KeyError (KInt (int k)))"
  using assms
proof (induction xs arbitrary: h)
  case Nil
  then show ?case by (simp add: dict_get_missing)
next
  case (Cons i xs)
  from Cons.prems(2) obtain a where a: "dict_get d (int i) = Inr a" "(int i, a) \<in> set d"
    using dict_get_present [of "int i" d] by auto
  from valid_entriesD [OF Cons.prems(1) a(2)] have v: "a < length h" "has_columns (h ! a)"
    by simp_all
  have "valid_entries (renumber_entry d i h) d"
    using Cons.prems(1) renumber_entry_frame [OF a(1)] by (rule valid_entries_frame)
  then have "fst (renumerate_loop (renumber_entry d i h) d (xs @ k # ys))
               = Inl (KeyError (KInt (int k)))"
    using Cons.prems(2,3) by (intro Cons.IH) simp_all
  then show ?case by (simp only: append_Cons renumerate_step [OF v a(1)])
qed

lemma combine_classes_'_ok:
  "[] \<notin> set g \<Longrightarrow> fst (combine_classes_' h col g) = Inr col"
proof (induction g arbitrary: h)
  case Nil
  then show ?case by simp
next
  case (Cons comb g)
  then have "comb \<noteq> []" "[] \<notin> set g" by auto
  then show ?case using Cons.IH by (simp add: py_min_Min)
qed

lemma combine_step:
  assumes "a < length h" "has_columns (h ! a)" "[] \<notin> set g" "dict_get d (int i) = Inr a"
  shows "\<exists>h2. combine_loop h d g (i # is) = combine_loop h2 d g is \<and> frame (snd ` set d) h h2"
proof -
  from assms(4) have mem: "a \<in> snd ` set d" by (force dest: dict_get_Inr)
  from assms(2) obtain rows where rows: "h ! a = Matrix rows" "[] \<notin> set rows"
    using has_columns_Matrix by blast
  have col: "last_column h a = Inr (LastColumn a)"
    using rows by (simp add: last_column_def)
  obtain r h1 where c: "combine_classes_' h (LastColumn a) g = (r, h1)"
    by (cases "combine_classes_' h (LastColumn a) g")
  from combine_classes_'_ok [OF assms(3), of h "LastColumn a"] c
  have r: "r = Inr (LastColumn a)" by simp
  from combine_classes_'_frame [of a h g] c have f1: "frame {a} h h1" by simp
  then have len: "length h1 = length h" and sc: "same_coordinates (h ! a) (h1 ! a)"
    using assms(1) by (simp_all add: frame_def)
  from sc assms(2) have "has_columns (h1 ! a)" by (rule same_coordinates_has_columns)
  then obtain rows1 where rows1: "h1 ! a = Matrix rows1" "[] \<notin> set rows1"
    using has_columns_Matrix by blast
  let ?h2 = "h1[a := Matrix (map2 (\<lambda>row v. butlast row @ [v]) rows1 (map last rows1))]"
  have st: "set_last_column h1 a (read_labels h1 (LastColumn a)) = Inr ?h2"
    using rows1 by (simp add: set_last_column_def)
  have "frame {a} h1 ?h2"
    using rows1 by (intro frame_update) (simp_all add: same_coordinates_map2)
  with f1 have "frame {a} h ?h2" by (rule frame_trans)
  with mem have "frame (snd ` set d) h ?h2" by (auto intro: frame_mono)
  moreover have "combine_loop h d g (i # is) = combine_loop ?h2 d g is"
    using assms(4) col c r st by simp
  ultimately show ?thesis by blast
qed

lemma combine_loop_ok:
  assumes "valid_entries h d" "[] \<notin> set g" "\<forall>i \<in> set is. int i \<in> fst ` set d"
  shows "\<exists>h'. combine_loop h d g is = (Inr (), h')"
  using assms
proof (induction "is" arbitrary: h)
  case Nil
  then show ?case by simp
next
  case (Cons i "is")
  from Cons.prems(3) obtain a where a: "dict_get d (int i) = Inr a" "(int i, a) \<in> set d"
    using dict_get_present [of "int i" d] by auto
  from valid_entriesD [OF Cons.prems(1) a(2)] have v: "a < length h" "has_columns (h ! a)"
    by simp_all
  from combine_step [OF v Cons.prems(2) a(1), of "is"] obtain h2
    where h2: "combine_loop h d g (i # is) = combine_loop h2 d g is" "frame (snd ` set d) h h2"
    by blast
  have "valid_entries h2 d" using Cons.prems(1) h2(2) by (rule valid_entries_frame)
  then have "\<exists>h'. combine_loop h2 d g is = (Inr (), h')"
    using Cons.prems(2,3) by (intro Cons.IH) simp_all
  then show ?case by (simp only: h2(1))
qed

lemma combine_loop_fail:
  assumes "valid_entries h d" "[] \<notin> set g" "\<forall>i \<in> set xs. int i \<in> fst ` set d"
    "int k \<notin> fst ` set d"
  shows "fst (combine_loop h d g (xs @ k # ys)) = Inl (KeyError (KInt (int k)))"
  using assms
proof (induction xs arbitrary: h)
  case Nil
  then show ?case by (simp add: dict_get_missing)
next
  case (Cons i xs)
  from Cons.prems(3) obtain a where a: "dict_get d (int i) = Inr a" "(int i, a) \<in> set d"
    using dict_get_present [of "int i" d] by auto
  from valid_entriesD [OF Cons.prems(1) a(2)] have v: "a < length h" "has_columns (h ! a)"
    by simp_all
  from combine_step [OF v Cons.prems(2) a(1), of "xs @ k # ys"] obtain h2
    where h2: "combine_loop h d g (i # xs @ k # ys) = combine_loop h2 d g (xs @ k # ys)"
      "frame (snd ` set d) h h2"
    by blast
  have "valid_entries h2 d" using Cons.prems(1) h2(2) by (rule valid_entries_frame)
  then have "fst (combine_loop h2 d g (xs @ k # ys)) = Inl (KeyError (KInt (int k)))"
    using Cons.prems(2,3,4) by (intro Cons.IH) simp_all
  then show ?case by (simp only: append_Cons h2(1))
qed

subsection \<open>Keys that are not the numbers below the length\<close>

lemma contiguous_keys_iff:
  "contiguous_keys d \<longleftrightarrow> fst ` set d = int ` {0..<length d}"
  by (simp add: contiguous_keys_def)

lemma first_missing_key:
  assumes "distinct (map fst d)" "\<not> contiguous_keys d"
  shows "\<exists>k < length d. int k \<notin> fst ` set d \<and> (\<forall>j < k. int j \<in> fst ` set d)"
proof -
  have ex: "\<exists>j < length d. int j \<notin> fst ` set d"
  proof (rule ccontr)
    assume "\<not> (\<exists>j < length d. int j \<notin> fst ` set d)"
    then have sub: "int ` {0..<length d} \<subseteq> fst ` set d" by auto
    have "card (fst ` set d) = length d"
      using assms(1) distinct_card [of "map fst d"] by simp
    moreover have "card (int ` {0..<length d}) = length d"
      by (simp add: card_image)
    ultimately have "int ` {0..<length d} = fst ` set d"
      using sub by (intro card_subset_eq) simp_all
    with assms(2) show False by (simp add: contiguous_keys_iff)
  qed
  define k where "k = (LEAST j. int j \<notin> fst ` set d)"
  from ex obtain j where j: "j < length d" "int j \<notin> fst ` set d" by blast
  have 1: "int k \<notin> fst ` set d" unfolding k_def using j(2) by (rule LeastI)
  have "k \<le> j" unfolding k_def using j(2) by (rule Least_le)
  with j(1) have 2: "k < length d" by simp
  have 3: "\<forall>i < k. int i \<in> fst ` set d"
    using not_less_Least [of _ "\<lambda>j. int j \<notin> fst ` set d"] by (auto simp: k_def)
  from 1 2 3 show ?thesis by blast
qed

lemma upt_split: "k < n \<Longrightarrow> [0..<n] = [0..<k] @ k # [Suc k..<n]"
  by (metis less_imp_le_nat upt_add_eq_append upt_conv_Cons le_add_diff_inverse plus_nat.add_0 zero_le)

subsection \<open>The two functions on a well-formed dictionary\<close>

lemma list_all2_setD2:
  "list_all2 P xs ys \<Longrightarrow> y \<in> set ys \<Longrightarrow> \<exists>x \<in> set xs. P x y"
  by (induction xs ys rule: list_all2_induct) auto

lemma deepcopy_valid:
  assumes "wf_dict h d" "deepcopy h d = (dc, h1)"
  shows "valid_entries h1 dc" and "map fst dc = map fst d" and "wf_dict h1 dc"
proof -
  from assms(1) have v: "\<forall>(k, a) \<in> set d. a < length h"
    by (auto simp: wf_dict_def list_all_iff)
  note copy = deepcopy_copy [OF assms(2) v]
  show keys: "map fst dc = map fst d" using assms(2) by (rule deepcopy_keys)
  show ve: "valid_entries h1 dc"
    unfolding valid_entries_def list_all_iff
  proof (clarify)
    fix k' a' assume "(k', a') \<in> set dc"
    with copy obtain k a where ka: "(k, a) \<in> set d" "a' < length h1" "h1 ! a' = h ! a"
      by (fastforce dest: list_all2_setD2)
    from assms(1) ka(1) have "has_columns (h ! a)"
      by (auto simp: wf_dict_def list_all_iff)
    with ka show "a' < length h1 \<and> has_columns (h1 ! a')" by simp
  qed
  from assms(1) keys ve show "wf_dict h1 dc"
    by (simp add: wf_dict_def valid_entries_def)
qed

lemma contiguous_keys_cong:
  "map fst dc = map fst d \<Longrightarrow> contiguous_keys dc = contiguous_keys d"
proof -
  assume k: "map fst dc = map fst d"
  then have "length dc = length d" by (metis length_map)
  with k show ?thesis by (simp add: contiguous_keys_def)
qed

lemma contiguous_keys_all:
  "contiguous_keys d \<Longrightarrow> \<forall>i \<in> set [0..<length d]. int i \<in> fst ` set d"
  by (auto simp: contiguous_keys_iff)

lemma renumerate_classes_ok:
  assumes "wf_dict h d" "contiguous_keys d" "deepcopy h d = (dc, h1)"
  shows "renumerate_classes h d flag
           = (Inr dc, fold (renumber_entry dc) [0..<length d] h1)"
proof -
  note v = deepcopy_valid [OF assms(1,3)]
  from v(2) have "fst ` set dc = fst ` set d" by (metis set_map)
  with contiguous_keys_all [OF assms(2)]
  have "\<forall>i \<in> set [0..<length d]. int i \<in> fst ` set dc" by simp
  with v(1) have "renumerate_loop h1 dc [0..<length d]
                    = (Inr (), fold (renumber_entry dc) [0..<length d] h1)"
    by (rule renumerate_loop_ok)
  with assms(3) show ?thesis by (simp add: renumerate_classes_def)
qed

lemma renumerate_classes_fail:
  assumes "wf_dict h d" "k < length d" "int k \<notin> fst ` set d"
    "\<forall>j < k. int j \<in> fst ` set d"
  shows "fst (renumerate_classes h d flag) = Inl (KeyError (KInt (int k)))"
proof -
  obtain dc h1 where c: "deepcopy h d = (dc, h1)" by (cases "deepcopy h d")
  note v = deepcopy_valid [OF assms(1) c]
  from v(2) have keys: "fst ` set dc = fst ` set d" by (metis set_map)
  have "fst (renumerate_loop h1 dc ([0..<k] @ k # [Suc k..<length d]))
          = Inl (KeyError (KInt (int k)))"
    using v(1) assms(3,4) keys by (intro renumerate_loop_fail) simp_all
  then have "fst (renumerate_loop h1 dc [0..<length d]) = Inl (KeyError (KInt (int k)))"
    by (simp only: upt_split [OF assms(2), symmetric])
  with c show ?thesis
    by (cases "renumerate_loop h1 dc [0..<length d]") (simp add: renumerate_classes_def)
qed

lemma combine_classes_ok:
  assumes "wf_dict h d" "contiguous_keys d" "[] \<notin> set g"
  shows "\<exists>d' h'. combine_classes h d g renum = (Inr d', h')"
proof -
  obtain dc h1 where c: "deepcopy h d = (dc, h1)" by (cases "deepcopy h d")
  note v = deepcopy_valid [OF assms(1) c]
  from v(2) have keys: "fst ` set dc = fst ` set d" and len: "length dc = length d"
    by (metis set_map, metis length_map)
  from contiguous_keys_all [OF assms(2)] keys len
  have all: "\<forall>i \<in> set [0..<length dc]. int i \<in> fst ` set dc" by simp
  from combine_loop_ok [OF v(1) assms(3) all] obtain h2
    where l: "combine_loop h1 dc g [0..<length dc] = (Inr (), h2)" by blast
  have "frame (snd ` set dc) h1 (snd (combine_loop h1 dc g [0..<length dc]))"
    by (rule combine_loop_frame)
  with l have "frame (snd ` set dc) h1 h2" by simp
  with v(1) have "valid_entries h2 dc" by (rule valid_entries_frame)
  with v(3) have wf2: "wf_dict h2 dc" by (simp add: wf_dict_def valid_entries_def)
  have ck: "contiguous_keys dc" using assms(2) contiguous_keys_cong [OF v(2)] by simp
  obtain dc2 h3 where c2: "deepcopy h2 dc = (dc2, h3)" by (cases "deepcopy h2 dc")
  note ok = renumerate_classes_ok [OF wf2 ck c2, of True]
  show ?thesis
    using ok by (cases renum) (simp_all add: combine_classes_cases [OF c l])
qed

lemma combine_classes_fail:
  assumes "wf_dict h d" "[] \<notin> set g" "k < length d" "int k \<notin> fst ` set d"
    "\<forall>j < k. int j \<in> fst ` set d"
  shows "fst (combine_classes h d g renum) = Inl (KeyError (KInt (int k)))"
proof -
  obtain dc h1 where c: "deepcopy h d = (dc, h1)" by (cases "deepcopy h d")
  note v = deepcopy_valid [OF assms(1) c]
  from v(2) have keys: "fst ` set dc = fst ` set d" and len: "length dc = length d"
    by (metis set_map, metis length_map)
  obtain r h2 where l: "combine_loop h1 dc g [0..<length dc] = (r, h2)"
    by (cases "combine_loop h1 dc g [0..<length dc]")
  have "fst (combine_loop h1 dc g ([0..<k] @ k # [Suc k..<length d]))
          = Inl (KeyError (KInt (int k)))"
    using v(1) assms(2,4,5) keys by (intro combine_loop_fail) simp_all
  then have "fst (combine_loop h1 dc g [0..<length dc]) = Inl (KeyError (KInt (int k)))"
    by (simp only: upt_split [OF assms(3), symmetric] len)
  with l have "r = Inl (KeyError (KInt (int k)))" by simp
  then show ?thesis by (simp add: combine_classes_cases [OF c l])
qed

text \<open>
  C10: \<open>combine_classes\<close> and \<open>renumerate_classes\<close> run over the numbers
  \<open>0, \<dots>, len - 1\<close>, not over the keys. On a well-formed dictionary, with no empty group
  to combine, they return when the keys are exactly these numbers; otherwise they raise
  \<open>KeyError\<close> at the first of these numbers that is not a key, and return nothing.
\<close>

theorem class_utilities_need_keys_0_to_len:
  assumes "wf_dict h d" and "[] \<notin> set classes_to_combine"
  shows "(contiguous_keys d \<longrightarrow>
            (\<exists>d' h'. renumerate_classes h d start_from_1 = (Inr d', h')) \<and>
            (\<exists>d' h'. combine_classes h d classes_to_combine renumerate = (Inr d', h')))
       \<and> (\<not> contiguous_keys d \<longrightarrow>
            (\<exists>k < length d. int k \<notin> fst ` set d \<and>
               fst (renumerate_classes h d start_from_1) = Inl (KeyError (KInt (int k))) \<and>
               fst (combine_classes h d classes_to_combine renumerate)
                 = Inl (KeyError (KInt (int k)))))"
proof (intro conjI impI)
  assume ck: "contiguous_keys d"
  obtain dc h1 where c: "deepcopy h d = (dc, h1)" by (cases "deepcopy h d")
  from renumerate_classes_ok [OF assms(1) ck c]
  show "\<exists>d' h'. renumerate_classes h d start_from_1 = (Inr d', h')" by blast
  from combine_classes_ok [OF assms(1) ck assms(2)]
  show "\<exists>d' h'. combine_classes h d classes_to_combine renumerate = (Inr d', h')" .
next
  assume nk: "\<not> contiguous_keys d"
  from assms(1) have "distinct (map fst d)" by (simp add: wf_dict_def)
  from first_missing_key [OF this nk] obtain k
    where k: "k < length d" "int k \<notin> fst ` set d" "\<forall>j < k. int j \<in> fst ` set d" by blast
  from renumerate_classes_fail [OF assms(1) k] combine_classes_fail [OF assms k] k(1,2)
  show "\<exists>k < length d. int k \<notin> fst ` set d \<and>
          fst (renumerate_classes h d start_from_1) = Inl (KeyError (KInt (int k))) \<and>
          fst (combine_classes h d classes_to_combine renumerate)
            = Inl (KeyError (KInt (int k)))"
    by blast
qed

theorem class_utilities_need_keys_0_to_len_witness:
  "wf_dict [Matrix [[1 / 2, 3], [2, 7]], Matrix [[0, 4]]] [(0, 0), (2, 1)]
   \<and> \<not> contiguous_keys [(0, 0), (2, 1)]
   \<and> fst (renumerate_classes [Matrix [[1 / 2, 3], [2, 7]], Matrix [[0, 4]]] [(0, 0), (2, 1)] True)
       = Inl (KeyError (KInt 1))
   \<and> fst (combine_classes [Matrix [[1 / 2, 3], [2, 7]], Matrix [[0, 4]]] [(0, 0), (2, 1)]
            [[7, 3]] True)
       = Inl (KeyError (KInt 1))
   \<and> wf_dict [Matrix [[1 / 2, 3], [2, 7]], Matrix [[0, 4]]] [(0, 0), (1, 1)]
   \<and> contiguous_keys [(0, 0), (1, 1)]
   \<and> (\<exists>d' h'. renumerate_classes [Matrix [[1 / 2, 3], [2, 7]], Matrix [[0, 4]]]
                  [(0, 0), (1, 1)] True = (Inr d', h'))
   \<and> (\<exists>d' h'. combine_classes [Matrix [[1 / 2, 3], [2, 7]], Matrix [[0, 4]]]
                  [(0, 0), (1, 1)] [[7, 3]] True = (Inr d', h'))"
proof -
  let ?h = "[Matrix [[1 / 2, 3], [2, 7]], Matrix [[0, 4]]]"
  let ?d = "[(0, 0), (2, 1)] :: coord_class_dict"
  let ?e = "[(0, 0), (1, 1)] :: coord_class_dict"
  have wf: "wf_dict ?h ?d" and wf': "wf_dict ?h ?e"
    by (simp_all add: wf_dict_def has_columns_def)
  have ne: "[] \<notin> set [[7, 3 :: real]]" by simp
  have ck: "contiguous_keys ?e"
    by (auto simp: contiguous_keys_def)
  have nk: "\<not> contiguous_keys ?d"
  proof
    assume "contiguous_keys ?d"
    then have "fst ` set ?d = int ` {0..<length ?d}" by (simp only: contiguous_keys_iff)
    moreover have "int 1 \<in> int ` {0..<length ?d}" by (intro imageI) simp
    ultimately have "int 1 \<in> fst ` set ?d" by (simp only:)
    then show False by simp
  qed
  note bad = class_utilities_need_keys_0_to_len [OF wf ne, of True True,
      THEN conjunct2, THEN mp, OF nk]
  note good = class_utilities_need_keys_0_to_len [OF wf' ne, of True True,
      THEN conjunct1, THEN mp, OF ck]
  from bad obtain k where k: "k < length ?d" "int k \<notin> fst ` set ?d"
    "fst (renumerate_classes ?h ?d True) = Inl (KeyError (KInt (int k)))"
    "fst (combine_classes ?h ?d [[7, 3]] True) = Inl (KeyError (KInt (int k)))"
    by blast
  from k(1,2) have "k = 1" by (cases k) auto
  with k(3,4) have
    "fst (renumerate_classes ?h ?d True) = Inl (KeyError (KInt 1))"
    "fst (combine_classes ?h ?d [[7, 3]] True) = Inl (KeyError (KInt 1))"
    by simp_all
  with wf wf' nk ck good show ?thesis by (intro conjI) simp_all
qed

subsection \<open>The result of renumerate_classes\<close>

lemma fold_renumber_entry:
  "length (fold (renumber_entry d) is h) = length h \<and>
   (\<forall>b < length h. fold (renumber_entry d) is h ! b
      = (if b \<in> (\<lambda>i. the (map_of d (int i))) ` set is then renumbered (h ! b) else h ! b))"
proof (induction "is" arbitrary: h)
  case Nil
  then show ?case by simp
next
  case (Cons i "is")
  let ?a = "the (map_of d (int i))"
  let ?h = "renumber_entry d i h"
  have h': "?h = h[?a := renumbered (h ! ?a)]" by (simp add: renumber_entry_def)
  have len: "length ?h = length h" by (simp add: h')
  have nth: "?h ! b = (if b = ?a then renumbered (h ! b) else h ! b)" if "b < length h" for b
    using that by (simp add: h' nth_list_update)
  have "fold (renumber_entry d) (i # is) h ! b
          = (if b \<in> (\<lambda>i. the (map_of d (int i))) ` set (i # is)
             then renumbered (h ! b) else h ! b)" if b: "b < length h" for b
  proof -
    from b len have "b < length ?h" by simp
    with Cons.IH [of ?h] have "fold (renumber_entry d) is ?h ! b
          = (if b \<in> (\<lambda>i. the (map_of d (int i))) ` set is then renumbered (?h ! b) else ?h ! b)"
      by blast
    then show ?thesis using nth [OF b] by (auto simp: renumbered_idem)
  qed
  moreover have "length (fold (renumber_entry d) (i # is) h) = length h"
    using Cons.IH [of ?h] len by simp
  ultimately show ?case by blast
qed

lemma renumerate_classes_result:
  assumes wf: "wf_dict h d" and ck: "contiguous_keys d"
  shows "\<exists>d' h'. renumerate_classes h d flag = (Inr d', h') \<and>
           renumbered_copy h d h' d' \<and>
           list_all (\<lambda>(k, a'). contiguous_from_1 (class_labels h' a')) d'"
proof -
  obtain dc h1 where c: "deepcopy h d = (dc, h1)" by (cases "deepcopy h d")
  let ?h' = "fold (renumber_entry dc) [0..<length d] h1"
  note res = renumerate_classes_ok [OF wf ck c, of flag]
  note v = deepcopy_valid [OF wf c]
  from wf have valid: "\<forall>(k, a) \<in> set d. a < length h"
    by (auto simp: wf_dict_def list_all_iff)
  note copy = deepcopy_copy [OF c valid]
  from v(2) have keys: "fst ` set dc = fst ` set d" by (metis set_map)
  from v(3) have dist: "distinct (map fst dc)" by (simp add: wf_dict_def)
  note f = fold_renumber_entry [of dc "[0..<length d]" h1]
  have hit: "?h' ! a' = renumbered (h1 ! a')" "a' < length ?h'"
    if "(k', a') \<in> set dc" for k' a'
  proof -
    from that keys ck obtain i where i: "i < length d" "k' = int i"
      by (force simp: contiguous_keys_iff)
    from dist that have "map_of dc k' = Some a'" by (rule map_of_is_SomeI)
    with i have "a' \<in> (\<lambda>i. the (map_of dc (int i))) ` set [0..<length d]"
      by (intro image_eqI [of _ _ i]) simp_all
    moreover from v(1) that have a': "a' < length h1" by (auto dest: valid_entriesD)
    ultimately show "?h' ! a' = renumbered (h1 ! a')" using f by simp
    from a' f show "a' < length ?h'" by simp
  qed
  have rc: "renumbered_copy h d ?h' dc"
    unfolding renumbered_copy_def
  proof (rule list.rel_mono_strong [OF copy])
    fix x y assume xy: "x \<in> set d" "y \<in> set dc"
      and p: "(case x of (k, a) \<Rightarrow> \<lambda>(k', a'). k' = k \<and> length h \<le> a' \<and> a' < length h1 \<and>
                 h1 ! a' = h ! a) y"
    obtain k a where x: "x = (k, a)" by (cases x)
    obtain k' a' where y: "y = (k', a')" by (cases y)
    from p x y have "k' = k" "h1 ! a' = h ! a" by simp_all
    with hit [of k' a'] xy(2) y x
    show "(case x of (k, a) \<Rightarrow> \<lambda>(k', a'). k' = k \<and> a' < length ?h' \<and>
                 ?h' ! a' = renumbered (h ! a)) y"
      by simp
  qed
  have lab: "list_all (\<lambda>(k, a'). contiguous_from_1 (class_labels ?h' a')) dc"
    unfolding list_all_iff
  proof (clarify)
    fix k' a' assume m: "(k', a') \<in> set dc"
    from v(1) m have "has_columns (h1 ! a')" by (auto dest: valid_entriesD)
    with hit [OF m] show "contiguous_from_1 (class_labels ?h' a')"
      by (intro renumbered_labels [of a' ?h' "h1 ! a'"]) simp_all
  qed
  from res rc lab show ?thesis by blast
qed

text \<open>
  C7: \<open>renumerate_classes\<close> gives the same result for both values of the flag
  \<open>start_from_1\<close> it is called with. On a well-formed dictionary whose keys are the
  numbers below its length, it returns a dictionary with the same keys whose arrays are
  the caller's arrays with \<open>renumerate_classes_\<close> applied, with the flag forced to true,
  to the last column; the class labels of every entry are then the numbers
  \<open>1, \<dots>, n\<close> without a gap.
\<close>

theorem renumerate_classes_forces_start_from_1:
  "renumerate_classes h d False = renumerate_classes h d True
   \<and> (wf_dict h d \<and> contiguous_keys d \<longrightarrow>
        (\<exists>d' h'. renumerate_classes h d start_from_1 = (Inr d', h') \<and>
           renumbered_copy h d h' d' \<and>
           list_all (\<lambda>(k, a'). contiguous_from_1 (class_labels h' a')) d'))"
  using renumerate_classes_result [of h d start_from_1]
  by (simp add: renumerate_classes_def)

theorem renumerate_classes_forces_start_from_1_witness:
  "renumerate_classes [Matrix [[1 / 2, 3], [2, 7], [1, 3]], Matrix [[0, 4]]] [(0, 0), (1, 1)] False
     = (Inr [(0, 2), (1, 3)],
        [Matrix [[1 / 2, 3], [2, 7], [1, 3]], Matrix [[0, 4]],
         Matrix [[1 / 2, 1], [2, 2], [1, 1]], Matrix [[0, 1]]])
   \<and> renumbered_copy [Matrix [[1 / 2, 3], [2, 7], [1, 3]], Matrix [[0, 4]]] [(0, 0), (1, 1)]
        [Matrix [[1 / 2, 3], [2, 7], [1, 3]], Matrix [[0, 4]],
         Matrix [[1 / 2, 1], [2, 2], [1, 1]], Matrix [[0, 1]]] [(0, 2), (1, 3)]
   \<and> class_labels [Matrix [[1 / 2, 3], [2, 7], [1, 3]], Matrix [[0, 4]],
         Matrix [[1 / 2, 1], [2, 2], [1, 1]], Matrix [[0, 1]]] 2 = [1, 2, 1]
   \<and> contiguous_from_1 [1, 2, 1]"
proof -
  let ?h = "[Matrix [[1 / 2, 3], [2, 7], [1, 3]], Matrix [[0, 4]]]"
  let ?d = "[(0, 0), (1, 1)] :: coord_class_dict"
  let ?h' = "[Matrix [[1 / 2, 3], [2, 7], [1, 3]], Matrix [[0, 4]],
         Matrix [[1 / 2, 1], [2, 2], [1, 1]], Matrix [[0, 1]]]"
  have wf: "wf_dict ?h ?d" by (simp add: wf_dict_def has_columns_def)
  have ck: "contiguous_keys ?d" by (auto simp: contiguous_keys_def)
  have r: "renumerate_classes ?h ?d False = (Inr [(0, 2), (1, 3)], ?h')"
    by (simp add: renumerate_classes_def deepcopy_def dict_get_def last_column_def
          set_last_column_def renumerate_classes_'_def np_unique_def np_arange_def
          dict_of_pairs_def)
  note main = renumerate_classes_forces_start_from_1 [of ?h ?d False,
      THEN conjunct2, THEN mp, OF conjI [OF wf ck]]
  from main r have 1: "renumbered_copy ?h ?d ?h' [(0, 2), (1, 3)]"
    and 2: "list_all (\<lambda>(k, a'). contiguous_from_1 (class_labels ?h' a')) [(0, 2), (1, 3)]"
    by auto
  have 3: "class_labels ?h' 2 = [1, 2, 1]" by (simp add: class_labels_def)
  from 2 have "contiguous_from_1 (class_labels ?h' 2)" by simp
  with 3 have 4: "contiguous_from_1 [1, 2, 1]" by simp
  from r 1 3 4 show ?thesis by (intro conjI)
qed
section \<open>Averaging weights\<close>

lemma sum_from_TensorValue:
  "length (entries_of x) = L \<Longrightarrow> \<forall>t \<in> set ts. length (entries_of t) = L \<Longrightarrow>
   \<exists>d. sum_from (TensorValue x) ts
          = Inr (TensorValue (Tensor d
              (map (\<lambda>j. entries_of x ! j + (\<Sum>t\<leftarrow>ts. entries_of t ! j)) [0..<L])))"
proof (induction ts arbitrary: x)
  case Nil
  then have "map ((!) (entries_of x)) [0..<L] = entries_of x"
    using map_nth [of "entries_of x"] by simp
  then have "sum_from (TensorValue x) []
          = Inr (TensorValue (Tensor (dtype_of x)
              (map (\<lambda>j. entries_of x ! j + (\<Sum>t\<leftarrow>[]. entries_of t ! j)) [0..<L])))"
    by simp
  then show ?case by blast
next
  case (Cons t ts)
  from Cons.prems have lt: "length (entries_of t) = L" by simp
  let ?x = "Tensor (promote (dtype_of x) (dtype_of t)) (map2 (+) (entries_of x) (entries_of t))"
  have add: "py_add (TensorValue x) t = Inr (TensorValue ?x)"
    using Cons.prems(1) lt by (simp add: py_add_def tensor_add_def)
  have len: "length (entries_of ?x) = L" using Cons.prems(1) lt by simp
  have "\<exists>d. sum_from (TensorValue ?x) ts
          = Inr (TensorValue (Tensor d
              (map (\<lambda>j. entries_of ?x ! j + (\<Sum>t\<leftarrow>ts. entries_of t ! j)) [0..<L])))"
    using len Cons.prems(2) by (intro Cons.IH) simp_all
  then obtain d where d: "sum_from (TensorValue ?x) ts
          = Inr (TensorValue (Tensor d
              (map (\<lambda>j. entries_of ?x ! j + (\<Sum>t\<leftarrow>ts. entries_of t ! j)) [0..<L])))"
    by blast
  have "map (\<lambda>j. entries_of ?x ! j + (\<Sum>t\<leftarrow>ts. entries_of t ! j)) [0..<L]
          = map (\<lambda>j. entries_of x ! j + (\<Sum>t\<leftarrow>t # ts. entries_of t ! j)) [0..<L]"
    using Cons.prems(1) lt by (intro map_cong) (simp_all add: add.assoc)
  with d add have "sum_from (TensorValue x) (t # ts)
          = Inr (TensorValue (Tensor d
              (map (\<lambda>j. entries_of x ! j + (\<Sum>t\<leftarrow>t # ts. entries_of t ! j)) [0..<L])))"
    by simp
  then show ?case by blast
qed

lemma py_sum_same_size:
  assumes "ts \<noteq> []" "\<forall>t \<in> set ts. length (entries_of t) = L"
  shows "\<exists>d. py_sum ts
           = Inr (TensorValue (Tensor d (map (\<lambda>j. \<Sum>t\<leftarrow>ts. entries_of t ! j) [0..<L])))"
proof -
  from assms(1) obtain t ts' where ts: "ts = t # ts'" by (cases ts) auto
  with assms(2) have lt: "length (entries_of t) = L"
    and rest: "\<forall>t \<in> set ts'. length (entries_of t) = L" by simp_all
  have z: "map (\<lambda>v. 0 + v) xs = xs" for xs :: "real list" by (induction xs) simp_all
  have "py_add (Scalar 0) t = Inr (TensorValue t)" by (simp add: py_add_def z)
  then have "py_sum ts = sum_from (TensorValue t) ts'" by (simp add: py_sum_def ts)
  moreover from sum_from_TensorValue [OF lt rest] obtain d where
    "sum_from (TensorValue t) ts'
       = Inr (TensorValue (Tensor d
           (map (\<lambda>j. entries_of t ! j + (\<Sum>t\<leftarrow>ts'. entries_of t ! j)) [0..<L])))"
    by blast
  ultimately have "py_sum ts
       = Inr (TensorValue (Tensor d (map (\<lambda>j. \<Sum>t\<leftarrow>ts. entries_of t ! j) [0..<L])))"
    by (simp add: ts)
  then show ?thesis by blast
qed

lemma average_one_parameter:
  assumes "ts \<noteq> []" "\<forall>t \<in> set ts. length (entries_of t) = length (entries_of dst)"
  shows "\<exists>s avg. py_sum ts = Inr s \<and> py_div s (length ts) = Inr avg \<and>
           copy_into dst avg
             = Inr (Tensor (dtype_of dst)
                 (map (cast_to (dtype_of dst)) (elementwise_mean (map entries_of ts))))"
proof -
  let ?L = "length (entries_of dst)"
  let ?s = "map (\<lambda>j. \<Sum>t\<leftarrow>ts. entries_of t ! j) [0..<?L]"
  let ?m = "elementwise_mean (map entries_of ts)"
  from py_sum_same_size [OF assms] obtain d where s: "py_sum ts = Inr (TensorValue (Tensor d ?s))"
    by blast
  from assms have hd: "length (hd (map entries_of ts)) = ?L" by (cases ts) auto
  have "map (\<lambda>v. v / real (length ts)) ?s = ?m"
    by (simp add: elementwise_mean_def hd o_def)
  with assms(1) have d: "py_div (TensorValue (Tensor d ?s)) (length ts)
                           = Inr (TensorValue (Tensor FloatType ?m))"
    by (simp add: py_div_def)
  have "length ?m = ?L" by (simp add: elementwise_mean_def hd)
  then have "copy_into dst (TensorValue (Tensor FloatType ?m))
               = Inr (Tensor (dtype_of dst) (map (cast_to (dtype_of dst)) ?m))"
    by (simp add: copy_into_def)
  with s d show ?thesis by blast
qed

subsection \<open>The tensors of one name\<close>

lemma filter_name_absent:
  "n \<notin> fst ` set sd \<Longrightarrow> filter (\<lambda>(n', p). n' = n) sd = []"
  by (induction sd) auto

lemma filter_name_present:
  "distinct (map fst (pre @ (n, p) # post)) \<Longrightarrow>
   filter (\<lambda>(n', p). n' = n) (pre @ (n, p) # post) = [(n, p)]"
  by (simp add: filter_name_absent)

lemma map_of_present:
  "distinct (map fst (pre @ (n, p) # post)) \<Longrightarrow> map_of (pre @ (n, p) # post) n = Some p"
  by (rule map_of_is_SomeI) simp_all

lemma split_at_name:
  "n \<in> fst ` set sd \<Longrightarrow> \<exists>pre p post. sd = pre @ (n, p) # post"
  by (metis imageE split_list prod.collapse)

lemma tensors_of_name:
  assumes "distinct (map fst sd)" "n \<in> fst ` set sd"
  shows "map snd (filter (\<lambda>(n', p). n' = n) sd) = [the (map_of sd n)]"
proof -
  from split_at_name [OF assms(2)] obtain pre p post where sd: "sd = pre @ (n, p) # post"
    by blast
  with assms(1) show ?thesis
    by (simp only: sd filter_name_present map_of_present) simp
qed

lemma same_structure_length:
  assumes "same_structure s t" "distinct (map fst t)" "n \<in> fst ` set t"
  shows "length (entries_of (the (map_of s n))) = length (entries_of (the (map_of t n)))"
proof -
  from assms(1) have "length s = length t"
    unfolding same_structure_def by (metis length_map)
  then show ?thesis using assms
  proof (induction s t rule: list_induct2)
    case Nil
    then show ?case by simp
  next
    case (Cons x xs y ys)
    obtain n1 p1 where x: "x = (n1, p1)" by (cases x)
    obtain n2 p2 where y: "y = (n2, p2)" by (cases y)
    from Cons.prems(1) x y have eq: "n1 = n2" "length (entries_of p1) = length (entries_of p2)"
      "same_structure xs ys"
      by (simp_all add: same_structure_def)
    show ?case
    proof (cases "n = n2")
      case True
      with x y eq show ?thesis by simp
    next
      case False
      with Cons.prems(2,3) y have "distinct (map fst ys)" "n \<in> fst ` set ys" by auto
      with Cons.IH [OF eq(3)] False x y eq(1) show ?thesis by simp
    qed
  qed
qed

lemma same_structure_names: "same_structure s t \<Longrightarrow> map fst s = map fst t"
  by (simp add: same_structure_def)

subsection \<open>The loop over the parameter names\<close>

lemma sd_write_present:
  "distinct (map fst (pre @ (n, p) # post)) \<Longrightarrow>
   sd_write (pre @ (n, p) # post) n new = pre @ (n, new) # post"
proof -
  assume d: "distinct (map fst (pre @ (n, p) # post))"
  have "map (\<lambda>(n', q). if n' = n then (n', new) else (n', q)) sd = sd"
    if "n \<notin> fst ` set sd" for sd :: state_dict
    using that by (induction sd) auto
  with d show ?thesis by (simp add: sd_write_def)
qed

lemma concat_singletons:
  "(\<And>x. x \<in> set xs \<Longrightarrow> f x = [g x]) \<Longrightarrow> concat (map f xs) = map g xs"
  by (induction xs) simp_all

lemma average_loop_invariant:
  assumes a0: "a0 < length h0"
    and ens: "ens \<noteq> []"
    and str: "\<forall>(k, a) \<in> set ens. a < length h0 \<and> same_structure (h0 ! a) (h0 ! a0)"
    and orig: "h0 ! a0 = pre0 @ todo"
    and names: "map fst pre = map fst pre0"
    and dist: "distinct (map fst (pre0 @ todo))"
  shows "average_loop (h0[a0 := pre @ todo]) ens a0 (map fst todo)
           = (Inr (), h0[a0 := pre @ averaged h0 ens todo])"
  using orig names dist
proof (induction todo arbitrary: pre pre0)
  case Nil
  then show ?case by (simp add: averaged_def)
next
  case (Cons x todo)
  obtain n p where x: "x = (n, p)" by (cases x)
  let ?h = "h0[a0 := pre @ (n, p) # todo]"
  let ?W = "map (\<lambda>(k, a). the (map_of (h0 ! a) n)) ens"
  let ?new = "Tensor (dtype_of p) (map (cast_to (dtype_of p)) (mean_of_name h0 ens n))"
  from Cons.prems x have orig: "h0 ! a0 = pre0 @ (n, p) # todo"
    and d0: "distinct (map fst (pre0 @ (n, p) # todo))" by simp_all
  from d0 Cons.prems(2) have d: "distinct (map fst (pre @ (n, p) # todo))" by simp
  have in0: "n \<in> fst ` set (h0 ! a0)" by (simp add: orig)
  have p0: "the (map_of (h0 ! a0) n) = p"
    using d0 by (simp only: orig map_of_present option.sel)
  have one: "map snd (filter (\<lambda>(n', q). n' = n) (?h ! a)) = [the (map_of (h0 ! a) n)]"
    and len: "length (entries_of (the (map_of (h0 ! a) n))) = length (entries_of p)"
    if "(k, a) \<in> set ens" for k a
  proof -
    from str that have a: "a < length h0" "same_structure (h0 ! a) (h0 ! a0)" by auto
    from a(2) have nm: "map fst (h0 ! a) = map fst (h0 ! a0)" by (rule same_structure_names)
    from d0 orig have da0: "distinct (map fst (h0 ! a0))" by simp
    from same_structure_length [OF a(2) da0 in0] p0
    show "length (entries_of (the (map_of (h0 ! a) n))) = length (entries_of p)" by simp
    show "map snd (filter (\<lambda>(n', q). n' = n) (?h ! a)) = [the (map_of (h0 ! a) n)]"
    proof (cases "a = a0")
      case True
      with a0 have "?h ! a = pre @ (n, p) # todo" by simp
      with d p0 True show ?thesis by (simp only: filter_name_present) simp
    next
      case False
      then have same: "?h ! a = h0 ! a" by simp
      from nm da0 in0 have "distinct (map fst (h0 ! a))" "n \<in> fst ` set (h0 ! a)"
        by (simp_all, metis set_map)
      then show ?thesis by (simp only: same tensors_of_name)
    qed
  qed
  have W: "collect_weights ?h ens n = ?W"
    unfolding collect_weights_def
  proof (rule concat_singletons)
    fix y assume y: "y \<in> set ens"
    obtain k a where ka: "y = (k, a)" by (cases y)
    from one [of k a] y ka
    show "(case y of (k, a) \<Rightarrow> map snd (filter (\<lambda>(n', q). n' = n) (?h ! a)))
            = [case y of (k, a) \<Rightarrow> the (map_of (h0 ! a) n)]"
      by (simp only: ka prod.case)
  qed
  have Wne: "?W \<noteq> []" using ens by simp
  have Wlen: "\<forall>t \<in> set ?W. length (entries_of t) = length (entries_of p)" using len by auto
  have "map entries_of ?W = map (\<lambda>(k, a). entries_of (the (map_of (h0 ! a) n))) ens"
    by (simp add: case_prod_unfold)
  then have mean: "elementwise_mean (map entries_of ?W) = mean_of_name h0 ens n"
    by (simp only: mean_of_name_def)
  from average_one_parameter [OF Wne Wlen] obtain s avg
    where s: "py_sum ?W = Inr s" "py_div s (length ?W) = Inr avg" "copy_into p avg = Inr ?new"
    unfolding mean by blast
  have "?h ! a0 = pre @ (n, p) # todo" using a0 by simp
  then have get: "sd_get (?h ! a0) n = Inr p"
    using map_of_present [OF d] by (simp only: sd_get_def option.case)
  have wr: "?h[a0 := sd_write (?h ! a0) n (?new)]
              = h0[a0 := (pre @ [(n, ?new)]) @ todo]"
    using a0 d by (simp add: sd_write_present)
  have step: "average_loop ?h ens a0 (map fst ((n, p) # todo))
                = average_loop (h0[a0 := (pre @ [(n, ?new)]) @ todo]) ens a0
                    (map fst todo)"
    using s get wr by (simp add: W)
  have "average_loop (h0[a0 := (pre @ [(n, ?new)]) @ todo]) ens a0 (map fst todo)
          = (Inr (), h0[a0 := (pre @ [(n, ?new)]) @ averaged h0 ens todo])"
  proof (rule Cons.IH)
    show "h0 ! a0 = (pre0 @ [(n, p)]) @ todo" using orig by simp
    show "map fst (pre @ [(n, ?new)]) = map fst (pre0 @ [(n, p)])"
      using Cons.prems(2) by simp
    show "distinct (map fst ((pre0 @ [(n, p)]) @ todo))" using d0 by simp
  qed
  also have "(pre @ [(n, ?new)]) @ averaged h0 ens todo
          = pre @ averaged h0 ens ((n, p) # todo)"
    by (simp add: averaged_def)
  finally show ?case using step x by simp
qed

lemma average_weights_structured:
  assumes key0: "map_of ens 0 = Some a0"
    and str: "\<forall>(k, a) \<in> set ens. a < length h \<and> same_structure (h ! a) (h ! a0)"
    and dist: "distinct (map fst (h ! a0))"
  shows "average_weights h ens = (Inr a0, h[a0 := averaged h ens (h ! a0)])"
proof -
  from key0 have mem: "(0, a0) \<in> set ens" by (rule map_of_SomeD)
  then have ne: "ens \<noteq> []" by auto
  from str mem have a0: "a0 < length h" by auto
  have "average_loop (h[a0 := [] @ h ! a0]) ens a0 (map fst (h ! a0))
          = (Inr (), h[a0 := [] @ averaged h ens (h ! a0)])"
    using average_loop_invariant [OF a0 ne str, of "[]" "h ! a0" "[]"] dist by simp
  moreover have "h[a0 := h ! a0] = h" by (rule list_update_id)
  ultimately have "average_loop h ens a0 (map fst (h ! a0))
          = (Inr (), h[a0 := averaged h ens (h ! a0)])"
    by simp
  with key0 show ?thesis by (simp add: average_weights_def dict_get_def)
qed
text \<open>
  C5, as the specification states it: given a non-empty ensemble of structurally
  identical snapshots, \<open>average_weights\<close> returns the snapshot of the elementwise means.
  It does not when no snapshot stands under the key 0: the ensemble with the single key 1
  is not empty, and the call raises \<open>KeyError\<close>.
\<close>

theorem average_weights_without_key_0:
  "[(1, 0)] \<noteq> ([] :: ensemble)
   \<and> same_structure [(''w'', Tensor FloatType [2, 4])] [(''w'', Tensor FloatType [2, 4])]
   \<and> average_weights [[(''w'', Tensor FloatType [2, 4])]] [(1, 0)]
       = (Inl (KeyError (KInt 0)), [[(''w'', Tensor FloatType [2, 4])]])"
  by (simp add: average_weights_def dict_get_def same_structure_def)

text \<open>
  C5, amended: given an ensemble that has a snapshot under the key 0, all of whose
  snapshots are structurally identical, \<open>average_weights\<close> returns the state dict under
  the key 0, the very object, after writing into each of its tensors the elementwise mean
  of the tensors of that name over all entries of the ensemble, cast to the element type
  of the tensor written: a floating-point tensor holds the mean, an integer tensor the
  mean rounded toward zero. No other state dict changes. For
  \<open>{0: {"w": [2.0, 4.0]}, 1: {"w": [0.0, 0.0]}}\<close> it returns \<open>{"w": [1.0, 2.0]}\<close>; for the
  integer tensors \<open>{0: {"n": [1, 2]}, 1: {"n": [2, 2]}}\<close>, whose elementwise mean is
  \<open>[1.5, 2]\<close>, it returns \<open>{"n": [1, 2]}\<close>.
\<close>

theorem average_weights_mean_in_place:
  "(map_of ens 0 = Some a0 \<and>
    (\<forall>(k, a) \<in> set ens. a < length h \<and> same_structure (h ! a) (h ! a0)) \<and>
    distinct (map fst (h ! a0)) \<longrightarrow>
      average_weights h ens = (Inr a0, h[a0 := averaged h ens (h ! a0)]))
   \<and> average_weights [[(''w'', Tensor FloatType [2, 4])], [(''w'', Tensor FloatType [0, 0])]]
         [(0, 0), (1, 1)]
       = (Inr 0, [[(''w'', Tensor FloatType [1, 2])], [(''w'', Tensor FloatType [0, 0])]])
   \<and> mean_of_name [[(''n'', Tensor IntType [1, 2])], [(''n'', Tensor IntType [2, 2])]]
         [(0, 0), (1, 1)] ''n'' = [3 / 2, 2]
   \<and> average_weights [[(''n'', Tensor IntType [1, 2])], [(''n'', Tensor IntType [2, 2])]]
         [(0, 0), (1, 1)]
       = (Inr 0, [[(''n'', Tensor IntType [1, 2])], [(''n'', Tensor IntType [2, 2])]])"
proof -
  have "average_weights [[(''w'', Tensor FloatType [2, 4])], [(''w'', Tensor FloatType [0, 0])]]
         [(0, 0), (1, 1)]
       = (Inr 0, [[(''w'', Tensor FloatType [1, 2])], [(''w'', Tensor FloatType [0, 0])]])"
    by (simp add: average_weights_def dict_get_def collect_weights_def py_sum_def py_add_def
          tensor_add_def py_div_def sd_get_def copy_into_def sd_write_def cast_to_def
          promote_def)
  moreover have "mean_of_name [[(''n'', Tensor IntType [1, 2])], [(''n'', Tensor IntType [2, 2])]]
         [(0, 0), (1, 1)] ''n'' = [3 / 2, 2]"
    by (simp add: mean_of_name_def elementwise_mean_def)
  moreover have
    "average_weights [[(''n'', Tensor IntType [1, 2])], [(''n'', Tensor IntType [2, 2])]]
         [(0, 0), (1, 1)]
       = (Inr 0, [[(''n'', Tensor IntType [1, 2])], [(''n'', Tensor IntType [2, 2])]])"
    by (simp add: average_weights_def dict_get_def collect_weights_def py_sum_def py_add_def
          tensor_add_def py_div_def sd_get_def copy_into_def sd_write_def cast_to_def
          trunc_def promote_def)
  ultimately show ?thesis using average_weights_structured by blast
qed

theorem average_weights_mean_in_place_witness:
  "map_of [(0, 1), (1, 0), (2, 1)] (0 :: int) = Some (1 :: nat)
   \<and> distinct (map fst [(''w'', Tensor FloatType [0, 0]), (''n'', Tensor IntType [3])])
   \<and> average_weights
        [[(''w'', Tensor FloatType [2, 4]), (''n'', Tensor IntType [1])],
         [(''w'', Tensor FloatType [0, 0]), (''n'', Tensor IntType [3])]]
        [(0, 1), (1, 0), (2, 1)]
       = (Inr 1,
          [[(''w'', Tensor FloatType [2, 4]), (''n'', Tensor IntType [1])],
           [(''w'', Tensor FloatType [2 / 3, 4 / 3]), (''n'', Tensor IntType [2])]])"
proof -
  let ?h = "[[(''w'', Tensor FloatType [2, 4]), (''n'', Tensor IntType [1])],
             [(''w'', Tensor FloatType [0, 0]), (''n'', Tensor IntType [3])]]"
  let ?ens = "[(0, 1), (1, 0), (2, 1)] :: ensemble"
  have k: "map_of ?ens 0 = Some 1" by simp
  have s: "\<forall>(k, a) \<in> set ?ens. a < length ?h \<and> same_structure (?h ! a) (?h ! 1)"
    by (simp add: same_structure_def)
  have d: "distinct (map fst (?h ! 1))" by simp
  have av: "averaged ?h ?ens (?h ! 1)
              = [(''w'', Tensor FloatType [2 / 3, 4 / 3]), (''n'', Tensor IntType [2])]"
    by (simp add: averaged_def mean_of_name_def elementwise_mean_def cast_to_def trunc_def)
  note main = average_weights_mean_in_place [of ?ens 1 ?h, THEN conjunct1, THEN mp,
      OF conjI [OF k conjI [OF s d]]]
  from main av have "average_weights ?h ?ens
       = (Inr 1,
          [[(''w'', Tensor FloatType [2, 4]), (''n'', Tensor IntType [1])],
           [(''w'', Tensor FloatType [2 / 3, 4 / 3]), (''n'', Tensor IntType [2])]])"
    by simp
  with k show ?thesis by simp
qed

section \<open>The constructor\<close>

lemma init_unsupported_output_type:
  "ot \<noteq> ''image'' \<Longrightarrow> ot \<noteq> ''spectra'' \<Longrightarrow>
   EnsemblePredictor_init (B\<lparr>base_super := None\<rparr>) skeleton ens dt ot nbc ind outd kw
     = Inl (TypeError msg_output_types)"
  by (simp add: EnsemblePredictor_init_def)

lemma init_supported_output_type:
  "ot = ''image'' \<or> ot = ''spectra'' \<Longrightarrow>
   EnsemblePredictor_init (B\<lparr>base_super := None\<rparr>) skeleton ens dt ot nbc ind outd kw
     = Inl (TypeError ''all() takes exactly one argument'')"
  by (auto simp: EnsemblePredictor_init_def)

lemma init_never_returns:
  "EnsemblePredictor_init B skeleton ens dt ot nbc ind outd kw \<noteq> Inr p"
  by (cases "base_super B") (auto simp: EnsemblePredictor_init_def)

text \<open>
  C1: a constructor call with an output type other than "image" and "spectra" raises the
  error with the message of the source. A call with data type "image", output type
  "spectra" and no \<open>out_dim\<close> does not reach the check of the dimensions: \<open>all\<close> is
  called with two arguments and raises its own \<open>TypeError\<close>, whose message does not tell
  the caller to give the dimensions. Both hold when the call of the base class returns.
\<close>

theorem init_image_spectra_without_out_dim:
  "EnsemblePredictor_init (B\<lparr>base_super := None\<rparr>) skeleton ens ''image'' ''spectra_typo''
       nbc ind outd kw
     = Inl (TypeError msg_output_types)
   \<and> EnsemblePredictor_init (B\<lparr>base_super := None\<rparr>) skeleton ens ''image'' ''spectra''
       nbc ind None kw
     = Inl (TypeError ''all() takes exactly one argument'')
   \<and> TypeError ''all() takes exactly one argument'' \<noteq> TypeError msg_dimensions"
  by (simp add: init_unsupported_output_type init_supported_output_type msg_dimensions_def)

section \<open>The output shape\<close>

lemma set_output_shape_image_classes:
  "c \<noteq> 0 \<Longrightarrow>
   set_output_shape (self\<lparr>data_type := ''image'', output_type := ''image'',
                          nb_classes := Some c\<rparr>) data
     = Inr (self\<lparr>data_type := ''image'', output_type := ''image'', nb_classes := Some c,
                  output_shape := Some (shape data @ [c])\<rparr>)"
  by (simp add: set_output_shape_def truthy_def)

lemma set_output_shape_not_understood:
  "data_type self \<noteq> ''image'' \<Longrightarrow> data_type self \<noteq> ''spectra'' \<Longrightarrow>
   set_output_shape self data = Inl (TypeError ''Data not understood'')"
  by (auto simp: set_output_shape_def)

lemma set_output_shape_from_out_dim:
  "data_type self = ''image'' \<Longrightarrow> output_type self = ''spectra'' \<Longrightarrow>
   out_dim self = Some od \<Longrightarrow> shape data = n # s \<Longrightarrow>
   set_output_shape self data = Inr (self\<lparr>output_shape := Some (n # od)\<rparr>)"
  by (simp add: set_output_shape_def np_len_def unpack_def)

text \<open>
  C2: for data type and output type "image" and an input batch of shape \<open>(8, 64, 64)\<close>,
  \<open>_set_output_shape\<close> sets the output shape \<open>(8, 64, 64, 5)\<close> when \<open>nb_classes\<close> is 5.
  When \<open>nb_classes\<close> is not set, the branch is the assignment \<open>(*data.shape)\<close> that the
  compiler rejects: no output shape is set.
\<close>

theorem set_output_shape_image_image:
  "set_output_shape (self\<lparr>data_type := ''image'', output_type := ''image'',
                          nb_classes := Some 5\<rparr>) \<lparr>shape = [8, 64, 64], entries = xs\<rparr>
     = Inr (self\<lparr>data_type := ''image'', output_type := ''image'', nb_classes := Some 5,
                  output_shape := Some [8, 64, 64, 5]\<rparr>)
   \<and> set_output_shape (self\<lparr>data_type := ''image'', output_type := ''image'',
                          nb_classes := None\<rparr>) \<lparr>shape = [8, 64, 64], entries = xs\<rparr>
     = Inl (SyntaxError ''cannot use starred expression here'')
   \<and> set_output_shape (self\<lparr>data_type := ''spectra'', output_type := ''spectra''\<rparr>)
         \<lparr>shape = [8, 64], entries = ys\<rparr>
     = Inl (SyntaxError ''cannot use starred expression here'')"
  by (simp add: set_output_shape_def truthy_def starred_without_comma_def)

section \<open>Prediction batch by batch\<close>

lemma ensemble_forward_'_IntArg:
  "ensemble_forward_' B self data (IntArg n)
     = Inl (TypeError ''Value after * must be an iterable, not int'')"
  by (simp add: ensemble_forward_'_def)

lemma predict_remainder_returns:
  assumes "predict_remainder B self data oshape start pm pv = Inr x"
    and "np_len data = Inr n"
  shows "n \<le> start"
proof (rule ccontr)
  assume "\<not> n \<le> start"
  then have rem: "start < n" by simp
  from assms(2) obtain s where sh: "shape data = n # s"
    by (auto simp: np_len_def split: list.splits)
  obtain data_i where di: "np_slice_from data start = Inr data_i"
    and len: "np_len data_i = Inr (n - start)"
    using sh rem by (auto simp: np_slice_from_def np_slice_def np_len_def Let_def min_def max_def)
  from rem have pos: "0 < n - start" by simp
  show False
  proof (cases "remainder_shape data_i oshape")
    case (Inl e)
    with assms(1) di len pos show False by (simp add: predict_remainder_def)
  next
    case (Inr arg)
    then obtain r where "arg = IntArg r"
      by (auto simp: remainder_shape_def split: sum.splits)
    with assms(1) di len pos Inr show False
      by (simp add: predict_remainder_def ensemble_forward_'_IntArg)
  qed
qed

text \<open>
  Whenever samples are left after the equal batches, the call raises: it returns only
  when the batches cover the whole input.
\<close>

lemma ensemble_batch_predict_returns_without_remainder:
  assumes ret: "ensemble_batch_predict B self data num_batches = Inr x"
    and n: "np_len data = Inr n"
  shows "n \<le> num_batches_of n num_batches * batch_size_of n num_batches"
proof -
  from ret n obtain oshape pm pv self1 where
    "predict_remainder B self1 data oshape
       (num_batches_of n num_batches * batch_size_of n num_batches) pm pv = Inr x"
    by (auto simp: ensemble_batch_predict_def split: if_splits option.splits sum.splits)
  then show ?thesis using n by (rule predict_remainder_returns)
qed

lemma upt_3: "[0..<3] = [0, 1, 2]"
  by (simp add: upt_conv_Cons)
lemma upt_10: "[0..<10] = [0, 1, 2, 3, 4, 5, 6, 7, 8, 9]"
  by (simp add: upt_conv_Cons)


text \<open>
  C4: with ten samples and \<open>num_batches=10\<close> every sample is processed once: the
  batch size is 1, the ten rounds write the ten rows of the two result arrays, and no
  sample remains. With \<open>num_batches=3\<close> the batch size is 3; the three rounds leave the
  tenth sample, and the call for this remainder raises \<open>TypeError\<close> before
  \<open>ensemble_forward_\<close> is entered: \<open>len\<close> has been given the dimensions as further
  arguments. Nothing is written to the last row, and no result is returned.
\<close>

theorem ensemble_batch_predict_remainder_raises:
  "ensemble_batch_predict scaling_model two_members ten_samples 10
     = Inr ((\<lparr>shape = [10, 1], entries = [2, 4, 6, 8, 10, 12, 14, 16, 18, 20]\<rparr>,
             \<lparr>shape = [10, 1], entries = [1, 4, 9, 16, 25, 36, 49, 64, 81, 100]\<rparr>),
            two_members\<lparr>model := Some 3\<rparr>)
   \<and> ensemble_batch_predict scaling_model two_members ten_samples 3
     = Inl (TypeError ''len() takes exactly one argument'')"
proof -
  have "ensemble_batch_predict scaling_model two_members ten_samples 10
     = Inr ((\<lparr>shape = [10, 1], entries = [2, 4, 6, 8, 10, 12, 14, 16, 18, 20]\<rparr>,
             \<lparr>shape = [10, 1], entries = [1, 4, 9, 16, 25, 36, 49, 64, 81, 100]\<rparr>),
            two_members\<lparr>model := Some 3\<rparr>)"
    by (simp add: ensemble_batch_predict_def scaling_model_def two_members_def ten_samples_def
        np_len_def batch_size_of_def num_batches_of_def np_zeros_def np_slice_def
        ensemble_forward_'_def broadcast_to_def np_mean_axis0_def np_var_axis0_def
        np_set_slice_def predict_remainder_def np_slice_from_def remainder_shape_def
        builtin_len_def upt_10 Let_def power2_eq_square)
  moreover have "ensemble_batch_predict scaling_model two_members ten_samples 3
     = Inl (TypeError ''len() takes exactly one argument'')"
    by (simp add: ensemble_batch_predict_def scaling_model_def two_members_def ten_samples_def
        np_len_def batch_size_of_def num_batches_of_def np_zeros_def np_slice_def
        ensemble_forward_'_def broadcast_to_def np_mean_axis0_def np_var_axis0_def
        np_set_slice_def predict_remainder_def np_slice_from_def remainder_shape_def
        builtin_len_def upt_3 Let_def power2_eq_square)
  ultimately show ?thesis by (rule conjI)
qed

section \<open>One batch through every member\<close>

lemma broadcast_to_same_shape: "shape v = s \<Longrightarrow> broadcast_to s v = Inr (entries v)"
  by (simp add: broadcast_to_def)

lemma forward_members_outputs:
  assumes "\<forall>m \<in> set ms. load_state_dict B m = None \<and>
             forward_' B (Some m) data = Inr (out m) \<and> shape (out m) = out_shape"
    and "model2device B (device self) = None"
    and "length ep = i + length ms"
  shows "forward_members B self data out_shape ms i ep
           = Inr (take i ep @ map (\<lambda>m. entries (out m)) ms,
                  if ms = [] then self else self\<lparr>model := Some (last ms)\<rparr>)"
  using assms
proof (induction ms arbitrary: i ep self)
  case Nil
  then show ?case by simp
next
  case (Cons m ms)
  from Cons.prems(1) have m: "load_state_dict B m = None"
      "forward_' B (Some m) data = Inr (out m)" "shape (out m) = out_shape"
    and rest: "\<forall>m \<in> set ms. load_state_dict B m = None \<and>
             forward_' B (Some m) data = Inr (out m) \<and> shape (out m) = out_shape"
    by simp_all
  let ?self = "self\<lparr>model := Some m\<rparr>"
  let ?ep = "ep[i := entries (out m)]"
  from Cons.prems(3) have i: "i < length ep" by simp
  have step: "forward_members B self data out_shape (m # ms) i ep
                = forward_members B ?self data out_shape ms (Suc i) ?ep"
    using m Cons.prems(2) by (simp add: broadcast_to_same_shape)
  have "forward_members B ?self data out_shape ms (Suc i) ?ep
          = Inr (take (Suc i) ?ep @ map (\<lambda>m. entries (out m)) ms,
                 if ms = [] then ?self else ?self\<lparr>model := Some (last ms)\<rparr>)"
    using rest Cons.prems(2,3) by (intro Cons.IH) simp_all
  moreover have "take (Suc i) ?ep = take i ep @ [entries (out m)]"
    using i by (simp add: take_Suc_conv_app_nth)
  ultimately show ?case using step by simp
qed

lemma sum_list_map_entries:
  "(\<Sum>x\<leftarrow>map f ms. g x) = (\<Sum>m\<leftarrow>ms. g (f m))"
  by (simp add: o_def)

lemma map_all_equal: "\<forall>m \<in> set ms. m = w \<Longrightarrow> map f ms = replicate (length ms) (f w)"
  by (induction ms) simp_all

lemma mean_of_equal:
  assumes "0 < N" "length v = k"
  shows "np_mean_axis0 (replicate N v) k = v"
proof (rule nth_equalityI)
  show "length (np_mean_axis0 (replicate N v) k) = length v"
    using assms(2) by (simp add: np_mean_axis0_def)
  fix j assume "j < length (np_mean_axis0 (replicate N v) k)"
  then have j: "j < k" by (simp add: np_mean_axis0_def)
  have "(\<Sum>x\<leftarrow>replicate N v. x ! j) = real N * v ! j"
    by (simp add: map_replicate_const sum_list_replicate)
  with assms(1) j show "np_mean_axis0 (replicate N v) k ! j = v ! j"
    by (simp add: np_mean_axis0_def)
qed

lemma var_of_equal:
  assumes "0 < N" "length v = k"
  shows "np_var_axis0 (replicate N v) k = replicate k 0"
proof (rule nth_equalityI)
  show "length (np_var_axis0 (replicate N v) k) = length (replicate k (0 :: real))"
    by (simp add: np_var_axis0_def)
  fix j assume "j < length (np_var_axis0 (replicate N v) k)"
  then have j: "j < k" by (simp add: np_var_axis0_def)
  have "(\<Sum>x\<leftarrow>replicate N v. (x ! j - v ! j)\<^sup>2) = 0"
    by (simp add: map_replicate_const sum_list_replicate)
  with j show "np_var_axis0 (replicate N v) k ! j = replicate k 0 ! j"
    by (simp add: np_var_axis0_def mean_of_equal [OF assms])
qed

text \<open>
  C3: when every member loads and runs, giving an array of the shape asked for,
  \<open>ensemble_forward_\<close> returns two arrays of that shape: at every position the mean of
  the members' outputs there, and the mean of the squares of their distances to that
  mean, the sum divided by the number \<open>N\<close> of members. When all snapshots are one and
  the same, the mean is the output of the model with this snapshot and the variance is 0
  everywhere.
\<close>

theorem ensemble_forward_'_mean_and_variance:
  assumes members: "ensemble self \<noteq> []"
    and runs: "\<forall>m \<in> set (map snd (ensemble self)).
                 load_state_dict B m = None \<and> forward_' B (Some m) data = Inr (out m) \<and>
                 shape (out m) = out_shape \<and> length (entries (out m)) = prod_list out_shape"
    and dev: "model2device B (device self) = None"
  shows "\<exists>mean var self'.
           ensemble_forward_' B self data (TupleArg out_shape)
             = Inr ((\<lparr>shape = out_shape, entries = mean\<rparr>,
                     \<lparr>shape = out_shape, entries = var\<rparr>), self') \<and>
           length mean = prod_list out_shape \<and> length var = prod_list out_shape \<and>
           (\<forall>j < prod_list out_shape.
              mean ! j = (\<Sum>m\<leftarrow>map snd (ensemble self). entries (out m) ! j)
                           / real (length (ensemble self)) \<and>
              var ! j = (\<Sum>m\<leftarrow>map snd (ensemble self). (entries (out m) ! j - mean ! j)\<^sup>2)
                           / real (length (ensemble self))) \<and>
           ((\<forall>m \<in> set (map snd (ensemble self)). m = w) \<longrightarrow>
              mean = entries (out w) \<and> var = replicate (prod_list out_shape) 0)"
proof -
  let ?ms = "map snd (ensemble self)"
  let ?k = "prod_list out_shape"
  let ?N = "length (ensemble self)"
  let ?outs = "map (\<lambda>m. entries (out m)) ?ms"
  let ?mean = "np_mean_axis0 ?outs ?k"
  let ?var = "np_var_axis0 ?outs ?k"
  let ?self' = "self\<lparr>model := Some (last ?ms)\<rparr>"
  from runs have runs': "\<forall>m \<in> set ?ms. load_state_dict B m = None \<and>
             forward_' B (Some m) data = Inr (out m) \<and> shape (out m) = out_shape"
    by simp
  have "forward_members B self data out_shape ?ms 0 (replicate ?N (replicate ?k 0))
          = Inr (take 0 (replicate ?N (replicate ?k 0)) @ ?outs,
                 if ?ms = [] then self else ?self')"
    using runs' dev by (rule forward_members_outputs) simp
  with members have fm:
    "forward_members B self data out_shape ?ms 0 (replicate ?N (replicate ?k 0))
       = Inr (?outs, ?self')" by simp
  from members have ne: "?outs \<noteq> []" by simp
  have res: "ensemble_forward_' B self data (TupleArg out_shape)
               = Inr ((\<lparr>shape = out_shape, entries = ?mean\<rparr>,
                       \<lparr>shape = out_shape, entries = ?var\<rparr>), ?self')"
    using fm ne by (simp add: ensemble_forward_'_def Let_def)
  have len: "length ?mean = ?k" "length ?var = ?k"
    by (simp_all add: np_mean_axis0_def np_var_axis0_def)
  have formula: "?mean ! j = (\<Sum>m\<leftarrow>?ms. entries (out m) ! j) / real ?N \<and>
                 ?var ! j = (\<Sum>m\<leftarrow>?ms. (entries (out m) ! j - ?mean ! j)\<^sup>2) / real ?N"
    if "j < ?k" for j
    using that by (simp add: np_mean_axis0_def np_var_axis0_def o_def)
  have equal: "?mean = entries (out w) \<and> ?var = replicate ?k 0"
    if all: "\<forall>m \<in> set ?ms. m = w"
  proof -
    from all have outs: "?outs = replicate (length ?ms) (entries (out w))"
      by (rule map_all_equal)
    from members all have "w \<in> set ?ms" by (cases "ensemble self") auto
    with runs have lw: "length (entries (out w)) = ?k" by blast
    from members have pos: "0 < length ?ms" by simp
    show ?thesis
      unfolding outs using mean_of_equal [OF pos lw] var_of_equal [OF pos lw] by simp
  qed
  from res len formula equal show ?thesis by blast
qed

theorem ensemble_forward_'_mean_and_variance_witness:
  "ensemble_forward_' scaling_model two_members \<lparr>shape = [2], entries = [1, 2]\<rparr> (TupleArg [2, 1])
     = Inr ((\<lparr>shape = [2, 1], entries = [2, 4]\<rparr>, \<lparr>shape = [2, 1], entries = [1, 4]\<rparr>),
            two_members\<lparr>model := Some 3\<rparr>)
   \<and> [2, 4 :: real] ! 1 = (\<Sum>m\<leftarrow>[1, 3]. [m, 2 * m] ! 1) / real (length [1, 3 :: real])
   \<and> [1, 4 :: real] ! 1 = (\<Sum>m\<leftarrow>[1, 3]. ([m, 2 * m] ! 1 - [2, 4] ! 1)\<^sup>2) / real (length [1, 3 :: real])
   \<and> ensemble_forward_' scaling_model (two_members\<lparr>ensemble := [(0, 3), (1, 3)]\<rparr>)
         \<lparr>shape = [2], entries = [1, 2]\<rparr> (TupleArg [2, 1])
     = Inr ((\<lparr>shape = [2, 1], entries = [3, 6]\<rparr>, \<lparr>shape = [2, 1], entries = [0, 0]\<rparr>),
            two_members\<lparr>ensemble := [(0, 3), (1, 3)], model := Some 3\<rparr>)"
proof -
  let ?data = "\<lparr>shape = [2], entries = [1, 2]\<rparr>"
  let ?out = "\<lambda>m :: real. \<lparr>shape = [2, 1], entries = [m, 2 * m]\<rparr>"
  let ?same = "two_members\<lparr>ensemble := [(0, 3), (1, 3)]\<rparr>"
  have r1: "ensemble_forward_' scaling_model two_members ?data (TupleArg [2, 1])
     = Inr ((\<lparr>shape = [2, 1], entries = [2, 4]\<rparr>, \<lparr>shape = [2, 1], entries = [1, 4]\<rparr>),
            two_members\<lparr>model := Some 3\<rparr>)"
    by (simp add: ensemble_forward_'_def scaling_model_def two_members_def broadcast_to_def
          np_mean_axis0_def np_var_axis0_def upt_conv_Cons power2_eq_square)
  have r2: "ensemble_forward_' scaling_model ?same ?data (TupleArg [2, 1])
     = Inr ((\<lparr>shape = [2, 1], entries = [3, 6]\<rparr>, \<lparr>shape = [2, 1], entries = [0, 0]\<rparr>),
            two_members\<lparr>ensemble := [(0, 3), (1, 3)], model := Some 3\<rparr>)"
    by (simp add: ensemble_forward_'_def scaling_model_def two_members_def broadcast_to_def
          np_mean_axis0_def np_var_axis0_def upt_conv_Cons power2_eq_square)
  have ne: "ensemble two_members \<noteq> []" by (simp add: two_members_def)
  have runs: "\<forall>m \<in> set (map snd (ensemble two_members)).
                 load_state_dict scaling_model m = None \<and>
                 forward_' scaling_model (Some m) ?data = Inr (?out m) \<and>
                 shape (?out m) = [2, 1] \<and> length (entries (?out m)) = prod_list [2, 1]"
    by (simp add: scaling_model_def two_members_def)
  have dev: "model2device scaling_model (device two_members) = None"
    by (simp add: scaling_model_def)
  from ensemble_forward_'_mean_and_variance [OF ne runs dev, of 0]
  obtain mean var self' where
    e: "ensemble_forward_' scaling_model two_members ?data (TupleArg [2, 1])
          = Inr ((\<lparr>shape = [2, 1], entries = mean\<rparr>, \<lparr>shape = [2, 1], entries = var\<rparr>), self')"
    and f: "\<forall>j < prod_list [2, 1].
              mean ! j = (\<Sum>m\<leftarrow>map snd (ensemble two_members). entries (?out m) ! j)
                           / real (length (ensemble two_members)) \<and>
              var ! j = (\<Sum>m\<leftarrow>map snd (ensemble two_members). (entries (?out m) ! j - mean ! j)\<^sup>2)
                           / real (length (ensemble two_members))"
    by blast
  from e r1 have mv: "mean = [2, 4]" "var = [1, 4]" by simp_all
  have "(1 :: nat) < prod_list [2, 1]" by simp
  with f have "mean ! 1 = (\<Sum>m\<leftarrow>map snd (ensemble two_members). entries (?out m) ! 1)
                           / real (length (ensemble two_members))"
    and "var ! 1 = (\<Sum>m\<leftarrow>map snd (ensemble two_members). (entries (?out m) ! 1 - mean ! 1)\<^sup>2)
                           / real (length (ensemble two_members))"
    by blast+
  then have "[2, 4 :: real] ! 1 = (\<Sum>m\<leftarrow>[1, 3]. [m, 2 * m] ! 1) / real (length [1, 3 :: real])"
    and "[1, 4 :: real] ! 1 = (\<Sum>m\<leftarrow>[1, 3]. ([m, 2 * m] ! 1 - [2, 4] ! 1)\<^sup>2) / real (length [1, 3 :: real])"
    unfolding mv by (simp_all add: two_members_def)
  with r1 r2 show ?thesis by (intro conjI)
qed

end
